theory Spec2Isabelle
  imports Main "HOL-Library.AList" "HOL-Library.Sublist"
begin

section \<open>Values of the Python program\<close>

text \<open>
  Every value the two clients handle is parsed JSON. A dict is an association list in
  insertion order (a parsed dict has distinct keys; a lookup takes the first binding).
  JSON numbers are modelled as integers: the code only tests them for truth.
\<close>

datatype json =
    JNull
  | JBool bool
  | JInt int
  | JStr string
  | JList "json list"
  | JDict "(string \<times> json) list"

text \<open>
  The exceptions the code can meet. \<open>GraphQLError\<close> is the \<open>Exception\<close> raised by
  \<open>_execute_query\<close> on an \<open>errors\<close> key; \<open>TransportError\<close> is whatever the transport
  raises; \<open>RuntimeError\<close> is what an async generator turns an escaping
  \<open>StopIteration\<close> into. \<open>InvalidReference\<close> has no Python counterpart: it is the
  model's answer to a reference to an object that is not in the store, which no Python
  reference can be.
\<close>

datatype error =
    KeyError
  | TypeError
  | AttributeError
  | RuntimeError
  | GraphQLError json
  | TransportError string
  | InvalidReference

text \<open>Sequencing of fallible steps: the first exception ends the computation.\<close>

fun bind :: "error + 'a \<Rightarrow> ('a \<Rightarrow> error + 'b) \<Rightarrow> error + 'b" where
  "bind (Inl e) f = Inl e"
| "bind (Inr x) f = f x"

text \<open>\<open>if not v\<close>: Python's truth value of a JSON value.\<close>

fun truthy :: "json \<Rightarrow> bool" where
  "truthy JNull = False"
| "truthy (JBool b) = b"
| "truthy (JInt i) = (i \<noteq> 0)"
| "truthy (JStr s) = (s \<noteq> [])"
| "truthy (JList xs) = (xs \<noteq> [])"
| "truthy (JDict d) = (d \<noteq> [])"

text \<open>\<open>v[k]\<close> with a string key: only a dict can be subscripted by a string.\<close>

fun subscript :: "json \<Rightarrow> string \<Rightarrow> error + json" where
  "subscript (JDict d) k = (case map_of d k of None \<Rightarrow> Inl KeyError | Some v \<Rightarrow> Inr v)"
| "subscript v k = Inl TypeError"

text \<open>\<open>v.get(k, default)\<close>: only a dict has the attribute.\<close>

fun dict_get :: "json \<Rightarrow> string \<Rightarrow> json \<Rightarrow> error + json" where
  "dict_get (JDict d) k dflt = (case map_of d k of None \<Rightarrow> Inr dflt | Some v \<Rightarrow> Inr v)"
| "dict_get v k dflt = Inl AttributeError"

text \<open>Iteration (\<open>for x in v\<close>, \<open>list(v)\<close>, \<open>xs.extend(v)\<close>) and \<open>len(v)\<close>.\<close>

fun py_iter :: "json \<Rightarrow> error + json list" where
  "py_iter (JList xs) = Inr xs"
| "py_iter (JDict d) = Inr (map (\<lambda>kv. JStr (fst kv)) d)"
| "py_iter (JStr s) = Inr (map (\<lambda>c. JStr [c]) s)"
| "py_iter v = Inl TypeError"

fun py_len :: "json \<Rightarrow> error + nat" where
  "py_len (JList xs) = Inr (length xs)"
| "py_len (JDict d) = Inr (length d)"
| "py_len (JStr s) = Inr (length s)"
| "py_len v = Inl TypeError"

text \<open>\<open>k in v\<close> for a string \<open>k\<close>: a key of a dict, an element of a list, a substring.\<close>

fun contains :: "string \<Rightarrow> json \<Rightarrow> error + bool" where
  "contains k (JDict d) = Inr (k \<in> set (map fst d))"
| "contains k (JList xs) = Inr (JStr k \<in> set xs)"
| "contains k (JStr s) = Inr (sublist k s)"
| "contains k v = Inl TypeError"

text \<open>\<open>{**base, **extra}\<close>: later bindings replace earlier ones in place, new keys go last.\<close>

definition dict_union :: "(string \<times> json) list \<Rightarrow> (string \<times> json) list \<Rightarrow> (string \<times> json) list" where
  "dict_union base extra = fold (\<lambda>kv d. AList.update (fst kv) (snd kv) d) extra base"

text \<open>\<open>variables or {}\<close> for an optional dict.\<close>

fun or_empty :: "(string \<times> json) list option \<Rightarrow> (string \<times> json) list" where
  "or_empty None = []"
| "or_empty (Some d) = d"

section \<open>The transport, and what a run leaves behind\<close>

text \<open>
  \<open>send_api_request(method, path, params | data)\<close> is the collaborator of both clients; its
  code is not part of them. It is a parameter here: a function from the remote side's
  state and a request to the parsed body or the exception, and the next state.
\<close>

datatype request = Request string string "(string \<times> json) list"

datatype log =
    DebugFetchingPage int string
  | DebugNoMoreRecords string
  | DebugLastPage string
  | ErrorQueryFailed json
  | ErrorExecuteFailed error
  | ErrorMissingCursor string json
  | DebugFetchingField string json
  | DebugYielding nat string json

text \<open>An event is a remote call with what it resolved to, or a line handed to the logger.\<close>

datatype event = Call request "error + json" | Log log

fun is_call :: "event \<Rightarrow> bool" where
  "is_call (Call r a) = True"
| "is_call (Log l) = False"

definition calls :: "event list \<Rightarrow> nat" where
  "calls evs = length (filter is_call evs)"

fun responses :: "event list \<Rightarrow> (error + json) list" where
  "responses [] = []"
| "responses (Call r a # evs) = a # responses evs"
| "responses (Log l # evs) = responses evs"

text \<open>
  An async generator is a state machine: one advance (\<open>anext\<close>) resumes it until it
  yields, raises or returns. \<open>Stop\<close> is \<open>StopAsyncIteration\<close>.
\<close>

datatype 'a step = Yield 'a | Raise error | Stop

datatype outcome = Completed | Failed error | OutOfFuel

text \<open>
  \<open>async for x in gen\<close>, for at most \<open>fuel\<close> advances: the values yielded, how the
  iteration ended, the generator and the remote side afterwards, and the events.
\<close>

fun drain :: "nat \<Rightarrow> ('g \<Rightarrow> 'w \<Rightarrow> 'a step \<times> 'g \<times> 'w \<times> event list) \<Rightarrow> 'g \<Rightarrow> 'w
    \<Rightarrow> 'a list \<times> outcome \<times> 'g \<times> 'w \<times> event list" where
  "drain 0 anext g w = ([], OutOfFuel, g, w, [])"
| "drain (Suc n) anext g w =
     (case anext g w of
        (Yield x, g', w', evs) \<Rightarrow>
          (case drain n anext g' w' of
             (xs, out, g'', w'', evs') \<Rightarrow> (x # xs, out, g'', w'', evs @ evs'))
      | (Raise e, g', w', evs) \<Rightarrow> ([], Failed e, g', w', evs)
      | (Stop, g', w', evs) \<Rightarrow> ([], Completed, g', w', evs))"

text \<open>A remote side that answers from a script, whatever is asked.\<close>

fun scripted :: "(error + json) list \<Rightarrow> request \<Rightarrow> (error + json) \<times> (error + json) list" where
  "scripted [] r = (Inl (TransportError ''script exhausted''), [])"
| "scripted (a # as) r = (a, as)"

section \<open>RestClient._make_paginated_request\<close>

text \<open>
  The generator is suspended either before its first statement or at its \<open>yield\<close>, where
  the locals \<open>page\<close> and \<open>response\<close> are live.
\<close>

datatype page_gen = PageStart | PageYielded int json | PageDone

text \<open>One turn of the \<open>while True\<close> loop up to the \<open>yield\<close> or the \<open>break\<close>.\<close>

definition fetch_page :: "('w \<Rightarrow> request \<Rightarrow> (error + json) \<times> 'w) \<Rightarrow> string
    \<Rightarrow> (string \<times> json) list option \<Rightarrow> int \<Rightarrow> int \<Rightarrow> 'w
    \<Rightarrow> json step \<times> page_gen \<times> 'w \<times> event list" where
  "fetch_page send path params page_size page w =
     (let request_params =
            dict_union (or_empty params) [(''per_page'', JInt page_size), (''page'', JInt page)];
          rq = Request ''GET'' path request_params;
          sent = send w rq;
          evs = [Log (DebugFetchingPage page path), Call rq (fst sent)]
      in case fst sent of
           Inl e \<Rightarrow> (Raise e, PageDone, snd sent, evs)
         | Inr response \<Rightarrow>
             if \<not> truthy response
             then (Stop, PageDone, snd sent, evs @ [Log (DebugNoMoreRecords path)])
             else (Yield response, PageYielded page response, snd sent, evs))"

fun make_paginated_request :: "('w \<Rightarrow> request \<Rightarrow> (error + json) \<times> 'w) \<Rightarrow> string
    \<Rightarrow> (string \<times> json) list option \<Rightarrow> int \<Rightarrow> page_gen \<Rightarrow> 'w
    \<Rightarrow> json step \<times> page_gen \<times> 'w \<times> event list" where
  "make_paginated_request send path params page_size PageStart w =
     fetch_page send path params page_size 1 w"
| "make_paginated_request send path params page_size (PageYielded page response) w =
     (case py_len response of
        Inl e \<Rightarrow> (Raise e, PageDone, w, [])
      | Inr n \<Rightarrow>
          if int n < page_size then (Stop, PageDone, w, [Log (DebugLastPage path)])
          else fetch_page send path params page_size (page + 1) w)"
| "make_paginated_request send path params page_size PageDone w = (Stop, PageDone, w, [])"

text \<open>\<open>len(batch) < page_size\<close>, false where \<open>len\<close> would raise.\<close>

definition shorter :: "json \<Rightarrow> int \<Rightarrow> bool" where
  "shorter b page_size = (case py_len b of Inl e \<Rightarrow> False | Inr n \<Rightarrow> int n < page_size)"

section \<open>GraphQLClient._execute_query\<close>

text \<open>
  One POST; an \<open>errors\<close> key in the body raises; otherwise the body's \<open>data\<close>. Every
  exception is logged by the \<open>except\<close> clause and raised again.
\<close>

definition graphql_request :: "string \<Rightarrow> (string \<times> json) list \<Rightarrow> request" where
  "graphql_request query variables =
     Request ''POST'' [] [(''query'', JStr query), (''variables'', JDict variables)]"

definition execute_query :: "('w \<Rightarrow> request \<Rightarrow> (error + json) \<times> 'w) \<Rightarrow> string
    \<Rightarrow> (string \<times> json) list option \<Rightarrow> 'w \<Rightarrow> (error + json) \<times> 'w \<times> event list" where
  "execute_query send query variables w =
     (let rq = graphql_request query (or_empty variables);
          sent = send w rq;
          failed = (\<lambda>e. (Inl e, snd sent, [Call rq (fst sent), Log (ErrorExecuteFailed e)]))
      in case fst sent of
           Inl e \<Rightarrow> failed e
         | Inr response \<Rightarrow>
             (case contains ''errors'' response of
                Inl e \<Rightarrow> failed e
              | Inr True \<Rightarrow>
                  (case subscript response ''errors'' of
                     Inl e \<Rightarrow> failed e
                   | Inr errs \<Rightarrow>
                       (Inl (GraphQLError errs), snd sent,
                        [Call rq (fst sent), Log (ErrorQueryFailed errs),
                         Log (ErrorExecuteFailed (GraphQLError errs))]))
              | Inr False \<Rightarrow>
                  (case subscript response ''data'' of
                     Inl e \<Rightarrow> failed e
                   | Inr d \<Rightarrow> (Inr d, snd sent, [Call rq (fst sent)]))))"

section \<open>References into a batch\<close>

text \<open>
  A batch is the list of parent records of one top-level page, each a dict
  (\<open>list[dict[str, Any]]\<close>). It arrives as parsed JSON, a tree without sharing, so a
  record is identified by its position in the batch and the list object of a field by
  the path \<open>batch[p][field]["nodes"]\<close>. The code never assigns to a key of a dict; the
  only objects it mutates are these lists, through \<open>extend\<close>.

  A nested stream yields a field name and a list object. The object is either the one
  found in a response, which nothing else refers to (\<open>Fresh\<close>), or, for the first page,
  the very list that sits in the parent (\<open>Alias\<close>): \<open>_paginate_field\<close> binds
  \<open>nodes = field_data["nodes"]\<close> and yields that object, not a copy of it.
\<close>

datatype nodes_ref = Fresh json | Alias nat string

fun lookup_project :: "(string \<times> json) list list \<Rightarrow> nat \<Rightarrow> error + (string \<times> json) list" where
  "lookup_project store p = (if p < length store then Inr (store ! p) else Inl InvalidReference)"

text \<open>The current contents of a yielded object.\<close>

fun deref :: "(string \<times> json) list list \<Rightarrow> nodes_ref \<Rightarrow> error + json" where
  "deref store (Fresh v) = Inr v"
| "deref store (Alias p f) =
     (case bind (lookup_project store p) (\<lambda>project.
             bind (subscript (JDict project) f) (\<lambda>field_data. subscript field_data ''nodes'')) of
        Inl e \<Rightarrow> Inl InvalidReference
      | Inr v \<Rightarrow> Inr v)"

section \<open>GraphQLClient._paginate_field\<close>

text \<open>\<open>a == b\<close> on parsed JSON: \<open>True == 1\<close>, and dicts compare without order.\<close>

fun py_eq :: "json \<Rightarrow> json \<Rightarrow> bool" where
  "py_eq JNull JNull = True"
| "py_eq (JBool a) (JBool b) = (a = b)"
| "py_eq (JBool a) (JInt i) = ((if a then 1 else 0) = i)"
| "py_eq (JInt i) (JBool b) = (i = (if b then 1 else 0))"
| "py_eq (JInt i) (JInt j) = (i = j)"
| "py_eq (JStr s) (JStr t) = (s = t)"
| "py_eq (JList xs) (JList ys) = list_all2 py_eq xs ys"
| "py_eq (JDict d) (JDict d') =
     (length d = length d' \<and>
      list_all (\<lambda>kv. case map_of d' (fst kv) of None \<Rightarrow> False | Some v' \<Rightarrow> py_eq (snd kv) v') d)"
| "py_eq a b = False"

text \<open>
  \<open>next(resource[field_name] for resource in resource_nodes if resource["id"] == parent_id)\<close>:
  the field of the first sibling with the parent's id; with no such sibling the
  \<open>StopIteration\<close> of \<open>next\<close> leaves the async generator as a \<open>RuntimeError\<close>.
\<close>

fun find_field_data :: "json list \<Rightarrow> json \<Rightarrow> string \<Rightarrow> error + json" where
  "find_field_data [] parent_id field_name = Inl RuntimeError"
| "find_field_data (resource # rest) parent_id field_name =
     bind (subscript resource ''id'') (\<lambda>rid.
       if py_eq rid parent_id then subscript resource field_name
       else find_field_data rest parent_id field_name)"

text \<open>
  Where the generator is suspended: before its first statement; at the first \<open>yield\<close>
  (locals \<open>parent_id\<close>, \<open>page_info\<close>); at the \<open>yield\<close> of the loop (locals
  \<open>parent_id\<close>, \<open>resource_field_data\<close>); or finished. A generator that raised is finished.
\<close>

datatype field_pos = FieldStart | FieldFirst json json | FieldNext json json | FieldDone

text \<open>The generator object: its parent (a position in the batch), its field, where it is.\<close>

datatype field_gen = FieldGen nat string field_pos

text \<open>
  From the test of the \<open>while\<close> to the next \<open>yield\<close>, \<open>break\<close> or exception. The cursor
  has been read from \<open>page_info\<close> by the caller (lines 112 and 138).
\<close>

definition field_loop :: "('w \<Rightarrow> request \<Rightarrow> (error + json) \<times> 'w) \<Rightarrow> string \<Rightarrow> string
    \<Rightarrow> (string \<times> json) list \<Rightarrow> string \<Rightarrow> json \<Rightarrow> json \<Rightarrow> json \<Rightarrow> 'w
    \<Rightarrow> (string \<times> nodes_ref) step \<times> field_pos \<times> 'w \<times> event list" where
  "field_loop send resource_field query variables field_name parent_id page_info cursor w =
     (case subscript page_info ''hasNextPage'' of
        Inl e \<Rightarrow> (Raise e, FieldDone, w, [])
      | Inr has_next \<Rightarrow>
          if \<not> truthy has_next then (Stop, FieldDone, w, [])
          else if cursor = JNull
          then (Stop, FieldDone, w, [Log (ErrorMissingCursor field_name parent_id)])
          else
            (case execute_query send query
                    (Some (dict_union [(field_name @ ''Cursor'', cursor)] variables)) w of
               (Inl e, w', evs) \<Rightarrow>
                 (Raise e, FieldDone, w', Log (DebugFetchingField field_name parent_id) # evs)
             | (Inr response, w', evs) \<Rightarrow>
                 (case bind (subscript response resource_field) (\<lambda>resource_data.
                         bind (subscript resource_data ''nodes'') (\<lambda>resource_nodes.
                         bind (py_iter resource_nodes) (\<lambda>resources.
                         bind (find_field_data resources parent_id field_name) (\<lambda>resource_field_data.
                         bind (subscript resource_field_data ''nodes'') (\<lambda>nodes.
                         bind (py_len nodes) (\<lambda>n. Inr (resource_field_data, nodes, n))))))) of
                    Inl e \<Rightarrow>
                      (Raise e, FieldDone, w', Log (DebugFetchingField field_name parent_id) # evs)
                  | Inr (resource_field_data, nodes, n) \<Rightarrow>
                      (Yield (field_name, Fresh nodes), FieldNext parent_id resource_field_data, w',
                       Log (DebugFetchingField field_name parent_id) # evs
                         @ [Log (DebugYielding n field_name parent_id)]))))"

text \<open>One advance of the generator, by where it was suspended.\<close>

fun paginate_field_pos :: "('w \<Rightarrow> request \<Rightarrow> (error + json) \<times> 'w) \<Rightarrow> string \<Rightarrow> string
    \<Rightarrow> (string \<times> json) list \<Rightarrow> (string \<times> json) list list \<Rightarrow> nat \<Rightarrow> string \<Rightarrow> field_pos \<Rightarrow> 'w
    \<Rightarrow> (string \<times> nodes_ref) step \<times> field_pos \<times> 'w \<times> event list" where
  "paginate_field_pos send resource_field query variables store p field_name FieldStart w =
     (case bind (lookup_project store p) (\<lambda>parent.
             bind (subscript (JDict parent) ''id'') (\<lambda>parent_id.
             bind (subscript (JDict parent) field_name) (\<lambda>field_data.
             bind (subscript field_data ''nodes'') (\<lambda>nodes.
             bind (subscript field_data ''pageInfo'') (\<lambda>page_info. Inr (parent_id, page_info)))))) of
        Inl e \<Rightarrow> (Raise e, FieldDone, w, [])
      | Inr (parent_id, page_info) \<Rightarrow>
          (Yield (field_name, Alias p field_name), FieldFirst parent_id page_info, w, []))"
| "paginate_field_pos send resource_field query variables store p field_name
       (FieldFirst parent_id page_info) w =
     (case subscript page_info ''endCursor'' of
        Inl e \<Rightarrow> (Raise e, FieldDone, w, [])
      | Inr cursor \<Rightarrow>
          field_loop send resource_field query variables field_name parent_id page_info cursor w)"
| "paginate_field_pos send resource_field query variables store p field_name
       (FieldNext parent_id resource_field_data) w =
     (case bind (subscript resource_field_data ''pageInfo'') (\<lambda>page_info.
             bind (subscript page_info ''endCursor'') (\<lambda>cursor. Inr (page_info, cursor))) of
        Inl e \<Rightarrow> (Raise e, FieldDone, w, [])
      | Inr (page_info, cursor) \<Rightarrow>
          field_loop send resource_field query variables field_name parent_id page_info cursor w)"
| "paginate_field_pos send resource_field query variables store p field_name FieldDone w =
     (Stop, FieldDone, w, [])"

fun paginate_field :: "('w \<Rightarrow> request \<Rightarrow> (error + json) \<times> 'w) \<Rightarrow> string \<Rightarrow> string
    \<Rightarrow> (string \<times> json) list \<Rightarrow> (string \<times> json) list list \<Rightarrow> field_gen \<Rightarrow> 'w
    \<Rightarrow> (string \<times> nodes_ref) step \<times> field_gen \<times> 'w \<times> event list" where
  "paginate_field send resource_field query variables store (FieldGen p field_name pos) w =
     (case paginate_field_pos send resource_field query variables store p field_name pos w of
        (r, pos', w', evs) \<Rightarrow> (r, FieldGen p field_name pos', w', evs))"

section \<open>GraphQLClient._fetch_paginated_fields\<close>

text \<open>\<open>isinstance(value, dict) and "nodes" in value and "pageInfo" in value\<close>\<close>

fun nested_shape :: "json \<Rightarrow> bool" where
  "nested_shape (JDict d) = (''nodes'' \<in> set (map fst d) \<and> ''pageInfo'' \<in> set (map fst d))"
| "nested_shape v = False"

text \<open>
  The generator has not run yet (it holds its resource), or it is inside the
  \<open>async for\<close> over the current field generator with the later ones waiting, or it is
  finished.
\<close>

datatype fetch_gen = FetchStart nat | FetchRunning field_gen "field_gen list" | FetchDone

text \<open>
  \<open>for generator in field_generators: async for ... in generator: yield ...\<close>, from the
  advance of the current generator on: an exhausted one gives way to the next.
\<close>

fun fetch_chain :: "('w \<Rightarrow> request \<Rightarrow> (error + json) \<times> 'w) \<Rightarrow> string \<Rightarrow> string
    \<Rightarrow> (string \<times> json) list \<Rightarrow> (string \<times> json) list list \<Rightarrow> field_gen \<Rightarrow> field_gen list \<Rightarrow> 'w
    \<Rightarrow> (string \<times> nodes_ref) step \<times> fetch_gen \<times> 'w \<times> event list" where
  "fetch_chain send resource_field query variables store cur [] w =
     (case paginate_field send resource_field query variables store cur w of
        (Yield y, cur', w', evs) \<Rightarrow> (Yield y, FetchRunning cur' [], w', evs)
      | (Raise e, cur', w', evs) \<Rightarrow> (Raise e, FetchDone, w', evs)
      | (Stop, cur', w', evs) \<Rightarrow> (Stop, FetchDone, w', evs))"
| "fetch_chain send resource_field query variables store cur (g # gs) w =
     (case paginate_field send resource_field query variables store cur w of
        (Yield y, cur', w', evs) \<Rightarrow> (Yield y, FetchRunning cur' (g # gs), w', evs)
      | (Raise e, cur', w', evs) \<Rightarrow> (Raise e, FetchDone, w', evs)
      | (Stop, cur', w', evs) \<Rightarrow>
          (case fetch_chain send resource_field query variables store g gs w' of
             (r, st, w'', evs') \<Rightarrow> (r, st, w'', evs @ evs')))"

text \<open>The field generators of a resource: one per field of nested shape, in the dict's order.\<close>

definition field_generators :: "nat \<Rightarrow> (string \<times> json) list \<Rightarrow> field_gen list" where
  "field_generators p resource =
     map (\<lambda>kv. FieldGen p (fst kv) FieldStart) (filter (\<lambda>kv. nested_shape (snd kv)) resource)"

fun fetch_paginated_fields :: "('w \<Rightarrow> request \<Rightarrow> (error + json) \<times> 'w) \<Rightarrow> string \<Rightarrow> string
    \<Rightarrow> (string \<times> json) list \<Rightarrow> (string \<times> json) list list \<Rightarrow> fetch_gen \<Rightarrow> 'w
    \<Rightarrow> (string \<times> nodes_ref) step \<times> fetch_gen \<times> 'w \<times> event list" where
  "fetch_paginated_fields send resource_field query variables store (FetchStart p) w =
     (case lookup_project store p of
        Inl e \<Rightarrow> (Raise e, FetchDone, w, [])
      | Inr resource \<Rightarrow>
          (case field_generators p resource of
             [] \<Rightarrow> (Stop, FetchDone, w, [])
           | g # gs \<Rightarrow> fetch_chain send resource_field query variables store g gs w))"
| "fetch_paginated_fields send resource_field query variables store (FetchRunning cur rest) w =
     fetch_chain send resource_field query variables store cur rest w"
| "fetch_paginated_fields send resource_field query variables store FetchDone w =
     (Stop, FetchDone, w, [])"

section \<open>GraphQLClient._execute_paginated_query\<close>

text \<open>
  Suspended before the first statement, at the \<open>yield\<close> (local \<open>resource_data\<close>), or
  finished. It yields the \<open>nodes\<close> of the page and one \<open>_fetch_paginated_fields\<close>
  generator per node, in order; a node is referred to by its position.
\<close>

datatype query_gen = QueryStart | QueryYielded json | QueryDone

text \<open>One turn of the loop for a given cursor, up to the \<open>yield\<close> or the first \<open>break\<close>.\<close>

definition query_page :: "('w \<Rightarrow> request \<Rightarrow> (error + json) \<times> 'w) \<Rightarrow> string \<Rightarrow> string
    \<Rightarrow> (string \<times> json) list option \<Rightarrow> json \<Rightarrow> 'w
    \<Rightarrow> (json \<times> fetch_gen list) step \<times> query_gen \<times> 'w \<times> event list" where
  "query_page send query resource_field variables cursor w =
     (case execute_query send query
             (Some (dict_union [(''cursor'', cursor)] (or_empty variables))) w of
        (Inl e, w', evs) \<Rightarrow> (Raise e, QueryDone, w', evs)
      | (Inr data, w', evs) \<Rightarrow>
          (case bind (subscript data resource_field) (\<lambda>resource_data.
                  bind (dict_get resource_data ''nodes'' (JList [])) (\<lambda>nodes.
                  Inr (resource_data, nodes))) of
             Inl e \<Rightarrow> (Raise e, QueryDone, w', evs)
           | Inr (resource_data, nodes) \<Rightarrow>
               if \<not> truthy nodes then (Stop, QueryDone, w', evs)
               else
                 (case py_iter nodes of
                    Inl e \<Rightarrow> (Raise e, QueryDone, w', evs)
                  | Inr items \<Rightarrow>
                      (Yield (nodes, map FetchStart [0..<length items]),
                       QueryYielded resource_data, w', evs))))"

fun execute_paginated_query :: "('w \<Rightarrow> request \<Rightarrow> (error + json) \<times> 'w) \<Rightarrow> string \<Rightarrow> string
    \<Rightarrow> (string \<times> json) list option \<Rightarrow> query_gen \<Rightarrow> 'w
    \<Rightarrow> (json \<times> fetch_gen list) step \<times> query_gen \<times> 'w \<times> event list" where
  "execute_paginated_query send query resource_field variables QueryStart w =
     query_page send query resource_field variables JNull w"
| "execute_paginated_query send query resource_field variables (QueryYielded resource_data) w =
     (case bind (subscript resource_data ''pageInfo'') (\<lambda>page_info.
             bind (subscript page_info ''hasNextPage'') (\<lambda>has_next. Inr (page_info, has_next))) of
        Inl e \<Rightarrow> (Raise e, QueryDone, w, [])
      | Inr (page_info, has_next) \<Rightarrow>
          if \<not> truthy has_next then (Stop, QueryDone, w, [])
          else
            (case dict_get page_info ''endCursor'' JNull of
               Inl e \<Rightarrow> (Raise e, QueryDone, w, [])
             | Inr cursor \<Rightarrow> query_page send query resource_field variables cursor w))"
| "execute_paginated_query send query resource_field variables QueryDone w =
     (Stop, QueryDone, w, [])"

section \<open>GraphQLClient._process_nested_fields\<close>

text \<open>
  \<open>results = await asyncio.gather(*tasks, return_exceptions=True)\<close>: every active iterator
  is advanced once, and the results come back in the order of the tasks, an exception
  as a value. The advances are made here in that order, the remote side threaded through
  them. The semaphore of \<open>bounded_anext\<close> limits how many run at once and changes no
  result. What the merge does is stated below for any list of results, so for every
  schedule. The result is \<open>zip(active_data, results)\<close>, the iterators advanced.
\<close>

fun gather :: "((string \<times> json) list list \<Rightarrow> 'it \<Rightarrow> 'w \<Rightarrow> (string \<times> nodes_ref) step \<times> 'it \<times> 'w \<times> event list)
    \<Rightarrow> (string \<times> json) list list \<Rightarrow> (nat \<times> 'it) list \<Rightarrow> 'w
    \<Rightarrow> ((nat \<times> 'it) \<times> (string \<times> nodes_ref) step) list \<times> 'w \<times> event list" where
  "gather adv store [] w = ([], w, [])"
| "gather adv store ((p, it) # rest) w =
     (case adv store it w of
        (r, it', w', evs) \<Rightarrow>
          (case gather adv store rest w' of
             (zipped, w'', evs') \<Rightarrow> (((p, it'), r) # zipped, w'', evs @ evs')))"

text \<open>\<open>project[field_name]["nodes"]\<close> replaced in a record (no key is added or removed).\<close>

definition set_field_nodes :: "(string \<times> json) list \<Rightarrow> string \<Rightarrow> json \<Rightarrow> (string \<times> json) list" where
  "set_field_nodes project field_name v =
     (case map_of project field_name of
        Some (JDict field_data) \<Rightarrow>
          AList.update field_name (JDict (AList.update ''nodes'' v field_data)) project
      | _ \<Rightarrow> project)"

text \<open>
  Lines 158 to 161 for one result that is not an exception:
  \<open>if nodes: project[field_name]["nodes"].extend(nodes); updated = True\<close>.
  Only a list has \<open>extend\<close>. Where \<open>nodes\<close> is the list being extended, its contents at
  that moment are appended to it. The result is the store and whether it was updated.
\<close>

definition extend_nodes :: "(string \<times> json) list list \<Rightarrow> nat \<Rightarrow> string \<Rightarrow> nodes_ref
    \<Rightarrow> error + (string \<times> json) list list \<times> bool" where
  "extend_nodes store p field_name nodes =
     bind (deref store nodes) (\<lambda>v.
       if \<not> truthy v then Inr (store, False)
       else
         bind (lookup_project store p) (\<lambda>project.
         bind (subscript (JDict project) field_name) (\<lambda>field_data.
         bind (subscript field_data ''nodes'') (\<lambda>target.
           case target of
             JList xs \<Rightarrow>
               bind (py_iter v) (\<lambda>items.
                 Inr (store[p := set_field_nodes project field_name (JList (xs @ items))], True))
           | _ \<Rightarrow> Inl AttributeError))))"

text \<open>
  The \<open>for\<close> loop of lines 156 to 163 over \<open>zip(active_data, results)\<close>: the store as the
  loop leaves it, and either the exception that ended it or \<open>next_active\<close> and
  \<open>updated\<close>. A result that is an exception or \<open>StopAsyncIteration\<close> is skipped.
\<close>

fun merge_results :: "(string \<times> json) list list \<Rightarrow> ((nat \<times> 'it) \<times> (string \<times> nodes_ref) step) list
    \<Rightarrow> (string \<times> json) list list \<times> (error + (nat \<times> 'it) list \<times> bool)" where
  "merge_results store [] = (store, Inr ([], False))"
| "merge_results store (((p, it), Yield (field_name, nodes)) # rest) =
     (case extend_nodes store p field_name nodes of
        Inl e \<Rightarrow> (store, Inl e)
      | Inr (store', upd) \<Rightarrow>
          (case merge_results store' rest of
             (store'', Inl e) \<Rightarrow> (store'', Inl e)
           | (store'', Inr (next_active, updated)) \<Rightarrow>
               (store'', Inr ((p, it) # next_active, upd \<or> updated))))"
| "merge_results store (((p, it), Raise e) # rest) = merge_results store rest"
| "merge_results store (((p, it), Stop) # rest) = merge_results store rest"

text \<open>
  The copy of one field in a snapshot (lines 168 to 172): a dict with \<open>nodes\<close> under a key
  other than \<open>id\<close> is rebuilt with a copy of the list and the same \<open>pageInfo\<close>; anything
  else is shared.
\<close>

fun has_nodes :: "json \<Rightarrow> bool" where
  "has_nodes (JDict d) = (''nodes'' \<in> set (map fst d))"
| "has_nodes v = False"

definition copy_field :: "string \<Rightarrow> json \<Rightarrow> error + json" where
  "copy_field key v =
     (if key \<noteq> ''id'' \<and> has_nodes v
      then bind (subscript v ''nodes'') (\<lambda>nodes.
           bind (py_iter nodes) (\<lambda>items.
           bind (subscript v ''pageInfo'') (\<lambda>page_info.
             Inr (JDict [(''nodes'', JList items), (''pageInfo'', page_info)]))))
      else Inr v)"

fun copy_project :: "(string \<times> json) list \<Rightarrow> error + (string \<times> json) list" where
  "copy_project [] = Inr []"
| "copy_project ((key, v) # rest) =
     bind (copy_field key v) (\<lambda>c. bind (copy_project rest) (\<lambda>cs. Inr ((key, c) # cs)))"

text \<open>The snapshot (lines 166 to 176): a copy of every project of \<open>active_data\<close>, in order.\<close>

fun snapshot :: "(string \<times> json) list list \<Rightarrow> nat list \<Rightarrow> error + (string \<times> json) list list" where
  "snapshot store [] = Inr []"
| "snapshot store (p # ps) =
     bind (lookup_project store p) (\<lambda>project.
     bind (copy_project project) (\<lambda>c.
     bind (snapshot store ps) (\<lambda>cs. Inr (c # cs))))"

text \<open>
  One turn of the \<open>while\<close> loop once the results are in (lines 152 to 176): the merge,
  and the snapshot of \<open>next_active\<close> when something was merged. The result is the store,
  and either the exception that left the loop or the next \<open>active_data\<close> with the
  snapshot yielded, if any.
\<close>

definition merge_wave :: "(string \<times> json) list list \<Rightarrow> ((nat \<times> 'it) \<times> (string \<times> nodes_ref) step) list
    \<Rightarrow> (string \<times> json) list list \<times> (error + (nat \<times> 'it) list \<times> (string \<times> json) list list option)" where
  "merge_wave store zipped =
     (case merge_results store zipped of
        (store', Inl e) \<Rightarrow> (store', Inl e)
      | (store', Inr (next_active, updated)) \<Rightarrow>
          if updated
          then
            (case snapshot store' (map fst next_active) of
               Inl e \<Rightarrow> (store', Inl e)
             | Inr snap \<Rightarrow> (store', Inr (next_active, Some snap)))
          else (store', Inr (next_active, None)))"

text \<open>
  The \<open>while active_data\<close> loop, for at most \<open>fuel\<close> waves. \<open>active_data\<close> pairs the
  position of a project with its iterator. The result is the snapshots yielded, each
  with the positions of the projects it copies, how the loop ended, the store, the
  remote side, and the events.
\<close>

fun process_nested_fields :: "nat
    \<Rightarrow> ((string \<times> json) list list \<Rightarrow> 'it \<Rightarrow> 'w \<Rightarrow> (string \<times> nodes_ref) step \<times> 'it \<times> 'w \<times> event list)
    \<Rightarrow> (string \<times> json) list list \<Rightarrow> (nat \<times> 'it) list \<Rightarrow> 'w
    \<Rightarrow> (nat list \<times> (string \<times> json) list list) list \<times> outcome \<times> (string \<times> json) list list \<times> 'w \<times> event list" where
  "process_nested_fields fuel adv store [] w = ([], Completed, store, w, [])"
| "process_nested_fields 0 adv store (a # as) w = ([], OutOfFuel, store, w, [])"
| "process_nested_fields (Suc n) adv store (a # as) w =
     (case gather adv store (a # as) w of
        (zipped, w', evs) \<Rightarrow>
          (case merge_wave store zipped of
             (store', Inl e) \<Rightarrow> ([], Failed e, store', w', evs)
           | (store', Inr (next_active, snap)) \<Rightarrow>
               (case process_nested_fields n adv store' next_active w' of
                  (snaps, out, store'', w'', evs') \<Rightarrow>
                    ((case snap of None \<Rightarrow> [] | Some s \<Rightarrow> [(map fst next_active, s)]) @ snaps,
                     out, store'', w'', evs @ evs'))))"

text \<open>
  The batch as \<open>_execute_paginated_query\<close> hands it over: \<open>zip(projects, field_iterators)\<close>
  with one \<open>_fetch_paginated_fields\<close> generator per node, none of them started.
\<close>

definition initial_active :: "(string \<times> json) list list \<Rightarrow> (nat \<times> fetch_gen) list" where
  "initial_active batch = zip [0..<length batch] (map FetchStart [0..<length batch])"

section \<open>Notions used in the statements and proofs\<close>

text \<open>
  The item list of a collection, a dict whose \<open>nodes\<close> is a list, and of a field of a
  record that is one.
\<close>

definition node_items :: "json \<Rightarrow> json list option" where
  "node_items v =
     (case v of
        JDict field_data \<Rightarrow>
          (case map_of field_data ''nodes'' of Some (JList xs) \<Rightarrow> Some xs | _ \<Rightarrow> None)
      | _ \<Rightarrow> None)"

definition field_items :: "(string \<times> json) list \<Rightarrow> string \<Rightarrow> json list option" where
  "field_items d key = (case map_of d key of Some v \<Rightarrow> node_items v | None \<Rightarrow> None)"

fun is_yield :: "'a step \<Rightarrow> bool" where
  "is_yield (Yield y) = True"
| "is_yield (Raise e) = False"
| "is_yield Stop = False"

text \<open>
  A value has grown when it is the same, or the same dict with items appended to its
  \<open>nodes\<close> list; a record and a store have grown when their values have, key by key and
  position by position.
\<close>

definition grown :: "json \<Rightarrow> json \<Rightarrow> bool" where
  "grown v v' \<longleftrightarrow>
     v' = v \<or> (\<exists>fd xs ys. v = JDict fd \<and> map_of fd ''nodes'' = Some (JList xs)
                  \<and> v' = JDict (AList.update ''nodes'' (JList (xs @ ys)) fd))"

definition grown_dict :: "(string \<times> json) list \<Rightarrow> (string \<times> json) list \<Rightarrow> bool" where
  "grown_dict d d' \<longleftrightarrow> list_all2 (\<lambda>kv kv'. fst kv' = fst kv \<and> grown (snd kv) (snd kv')) d d'"

definition grown_store :: "(string \<times> json) list list \<Rightarrow> (string \<times> json) list list \<Rightarrow> bool" where
  "grown_store s s' \<longleftrightarrow> list_all2 grown_dict s s'"

section \<open>Concrete inputs\<close>

text \<open>The inputs at which the theorems below are evaluated.\<close>

definition label :: "string \<Rightarrow> json" where
  "label s = JDict [(''name'', JStr s)]"

text \<open>Scenario B: a page-style endpoint answers two full pages of two, then an empty page.\<close>

definition scenario_B :: "(error + json) list" where
  "scenario_B =
     [Inr (JList [label ''a'', label ''b'']), Inr (JList [label ''c'', label ''d'']), Inr (JList [])]"

text \<open>GraphQL fixtures: a \<open>pageInfo\<close>, a \<open>{nodes, pageInfo}\<close> collection, a response body.\<close>

definition page_info :: "bool \<Rightarrow> json \<Rightarrow> json" where
  "page_info more cur = JDict [(''hasNextPage'', JBool more), (''endCursor'', cur)]"

definition collection :: "json list \<Rightarrow> json \<Rightarrow> json" where
  "collection nodes pi = JDict [(''nodes'', JList nodes), (''pageInfo'', pi)]"

definition body :: "json \<Rightarrow> error + json" where
  "body projects = Inr (JDict [(''data'', JDict [(''projects'', projects)])])"

text \<open>A project without nested collections, and one with a first page of two labels.\<close>

definition plain_project :: "(string \<times> json) list" where
  "plain_project = [(''id'', JStr ''2''), (''name'', JStr ''two'')]"

definition labelled_project :: "(string \<times> json) list" where
  "labelled_project =
     [(''id'', JStr ''1''),
      (''labels'', collection [label ''a'', label ''b''] (page_info True (JStr ''c1'')))]"

text \<open>Top-level pages: the last one, an empty one, and one that has more but no cursor.\<close>

definition last_page :: "error + json" where
  "last_page = body (collection [JDict plain_project] (page_info False JNull))"

definition empty_page :: "error + json" where
  "empty_page = body (collection [] (page_info False JNull))"

definition stuck_page :: "error + json" where
  "stuck_page = body (collection [JDict plain_project] (page_info True JNull))"

text \<open>The answer to the re-query for the second page of the labels of project 1.\<close>

definition labels_page_two :: "error + json" where
  "labels_page_two =
     body (collection
       [JDict [(''id'', JStr ''1''), (''labels'', collection [label ''c''] (page_info False JNull))]]
       (page_info False JNull))"

text \<open>
  A project with two nested collections, each with a further page, and the answer to
  the re-query for the second page of its members.
\<close>

definition two_field_project :: "(string \<times> json) list" where
  "two_field_project =
     [(''id'', JStr ''1''),
      (''labels'', collection [label ''a''] (page_info True (JStr ''c1''))),
      (''members'', collection [label ''m''] (page_info True (JStr ''m1'')))]"

definition members_page_two :: "error + json" where
  "members_page_two =
     body (collection
       [JDict [(''id'', JStr ''1''), (''members'', collection [label ''n''] (page_info False JNull))]]
       (page_info False JNull))"

text \<open>A stream that plays back a list of results and is exhausted after them.\<close>

fun canned :: "(string \<times> json) list list \<Rightarrow> (string \<times> nodes_ref) step list \<Rightarrow> 'w
    \<Rightarrow> (string \<times> nodes_ref) step \<times> (string \<times> nodes_ref) step list \<times> 'w \<times> event list" where
  "canned store [] w = (Stop, [], w, [])"
| "canned store (r # rs) w = (r, rs, w, [])"

section \<open>The page paginator\<close>

lemma responses_append: "responses (xs @ ys) = responses xs @ responses ys"
  by (induction xs rule: responses.induct) auto

text \<open>What one turn of the loop can do: it makes exactly one call, and the call decides.\<close>

lemma fetch_page_cases:
  "fetch_page send path params page_size page w = (st, g, w', evs) \<Longrightarrow>
     (\<exists>e. st = Raise e \<and> g = PageDone \<and> responses evs = [Inl e])
   \<or> (\<exists>r. st = Stop \<and> g = PageDone \<and> \<not> truthy r \<and> responses evs = [Inr r])
   \<or> (\<exists>r. st = Yield r \<and> g = PageYielded page r \<and> truthy r \<and> responses evs = [Inr r])"
  by (auto simp: fetch_page_def Let_def split: sum.splits if_splits)

lemma drain_from_yielded:
  "drain fuel (make_paginated_request send path params page_size) (PageYielded page r) w
      = (batches, Completed, g, w', evs) \<Longrightarrow> truthy r \<Longrightarrow>
   list_all truthy batches \<and> list_all (\<lambda>b. \<not> shorter b page_size) (butlast (r # batches))
   \<and> ((shorter (last (r # batches)) page_size \<and> responses evs = map Inr batches)
       \<or> (\<exists>r'. \<not> truthy r' \<and> responses evs = map Inr batches @ [Inr r']))
   \<and> g = PageDone"
proof (induction fuel arbitrary: page r w batches evs)
  case 0
  then show ?case by simp
next
  case (Suc n)
  show ?case
  proof (cases "py_len r")
    case (Inl e)
    with Suc.prems show ?thesis by simp
  next
    case (Inr k)
    show ?thesis
    proof (cases "int k < page_size")
      case True
      with Inr Suc.prems show ?thesis by (auto simp: shorter_def)
    next
      case False
      obtain st g1 w1 evs1
        where fp: "fetch_page send path params page_size (page + 1) w = (st, g1, w1, evs1)"
        by (cases "fetch_page send path params page_size (page + 1) w") auto
      from fetch_page_cases[OF fp] show ?thesis
      proof (elim disjE exE conjE)
        fix e assume "st = Raise e" "g1 = PageDone" "responses evs1 = [Inl e]"
        with Suc.prems Inr False fp show ?thesis by simp
      next
        fix r' assume "st = Stop" "g1 = PageDone" "\<not> truthy r'" "responses evs1 = [Inr r']"
        with Suc.prems Inr False fp show ?thesis by (auto simp: shorter_def)
      next
        fix r'
        assume a: "st = Yield r'" "g1 = PageYielded (page + 1) r'" "truthy r'"
          "responses evs1 = [Inr r']"
        obtain bs out g2 w2 evs2
          where d: "drain n (make_paginated_request send path params page_size)
                      (PageYielded (page + 1) r') w1 = (bs, out, g2, w2, evs2)"
          by (metis prod_cases5)
        with Suc.prems Inr False fp a
        have eqs: "batches = r' # bs" "out = Completed" "g2 = g" "w2 = w'" "evs = evs1 @ evs2"
          by auto
        from Suc.IH[OF d[unfolded eqs(2,3,4)] a(3)]
        show ?thesis using eqs a Inr False by (auto simp: shorter_def responses_append)
      qed
    qed
  qed
qed

lemma scenario_B_run:
  "drain 3 (make_paginated_request scripted ''groups/1/labels'' None 2) PageStart scenario_B
     = ([JList [label ''a'', label ''b''], JList [label ''c'', label ''d'']], Completed, PageDone, [],
        [Log (DebugFetchingPage 1 ''groups/1/labels''),
         Call (Request ''GET'' ''groups/1/labels'' [(''per_page'', JInt 2), (''page'', JInt 1)])
           (Inr (JList [label ''a'', label ''b''])),
         Log (DebugFetchingPage 2 ''groups/1/labels''),
         Call (Request ''GET'' ''groups/1/labels'' [(''per_page'', JInt 2), (''page'', JInt 2)])
           (Inr (JList [label ''c'', label ''d''])),
         Log (DebugFetchingPage 3 ''groups/1/labels''),
         Call (Request ''GET'' ''groups/1/labels'' [(''per_page'', JInt 2), (''page'', JInt 3)])
           (Inr (JList [])),
         Log (DebugNoMoreRecords ''groups/1/labels'')])"
  by (simp add: numeral_3_eq_3 fetch_page_def scenario_B_def dict_union_def label_def)

text \<open>
  Claim C5, as stated, fails. In scenario B (page size 2) the sequence completes after
  yielding two batches, and the last batch yielded has two items: it is not shorter than
  the page size, and the sequence is not empty.
\<close>

theorem page_last_batch_counterexample:
  "fst (drain 3 (make_paginated_request scripted ''groups/1/labels'' None 2) PageStart scenario_B)
     = [JList [label ''a'', label ''b''], JList [label ''c'', label ''d'']]
   \<and> fst (snd (drain 3 (make_paginated_request scripted ''groups/1/labels'' None 2) PageStart scenario_B))
     = Completed
   \<and> \<not> shorter (JList [label ''c'', label ''d'']) 2"
  by (simp add: scenario_B_run shorter_def)

text \<open>
  Claim C5, amended. For every page-style sequence that runs to its end: every batch
  yielded is non-empty and every batch but the last is at least a page long; the
  sequence ends either after a last batch shorter than the page size, or on a response
  that is empty and is not yielded (so the last batch yielded may be a full page, and
  the sequence is empty when the first response is); the remote calls are exactly one
  per batch, each answered by that batch, and in the second case one more, answered by
  the empty response; and the finished generator stays finished: a further advance
  yields nothing and calls nothing.
\<close>

theorem page_sequence_ends:
  assumes run: "drain fuel (make_paginated_request send path params page_size) PageStart w
                  = (batches, Completed, g, w', evs)"
  shows "list_all truthy batches
       \<and> list_all (\<lambda>b. \<not> shorter b page_size) (butlast batches)
       \<and> ((batches \<noteq> [] \<and> shorter (last batches) page_size \<and> responses evs = map Inr batches)
          \<or> (\<exists>r. \<not> truthy r \<and> responses evs = map Inr batches @ [Inr r]))
       \<and> g = PageDone
       \<and> make_paginated_request send path params page_size g w' = (Stop, PageDone, w', [])"
proof (cases fuel)
  case 0
  with run show ?thesis by simp
next
  case (Suc n)
  obtain st g1 w1 evs1 where fp: "fetch_page send path params page_size 1 w = (st, g1, w1, evs1)"
    by (cases "fetch_page send path params page_size 1 w") auto
  from fetch_page_cases[OF fp] show ?thesis
  proof (elim disjE exE conjE)
    fix e assume "st = Raise e" "g1 = PageDone" "responses evs1 = [Inl e]"
    with run Suc fp show ?thesis by simp
  next
    fix r assume "st = Stop" "g1 = PageDone" "\<not> truthy r" "responses evs1 = [Inr r]"
    with run Suc fp show ?thesis by auto
  next
    fix r assume a: "st = Yield r" "g1 = PageYielded 1 r" "truthy r" "responses evs1 = [Inr r]"
    obtain bs out g2 w2 evs2
      where d: "drain n (make_paginated_request send path params page_size) (PageYielded 1 r) w1
                  = (bs, out, g2, w2, evs2)"
      by (metis prod_cases5)
    with run Suc fp a
    have eqs: "batches = r # bs" "out = Completed" "g2 = g" "w2 = w'" "evs = evs1 @ evs2"
      by auto
    from drain_from_yielded[OF d[unfolded eqs(2,3,4)] a(3)]
    show ?thesis using eqs a by (auto simp: responses_append)
  qed
qed

theorem page_sequence_ends_witness:
  "drain 3 (make_paginated_request scripted ''groups/1/labels'' None 2) PageStart scenario_B
     = ([JList [label ''a'', label ''b''], JList [label ''c'', label ''d'']], Completed, PageDone, [],
        [Log (DebugFetchingPage 1 ''groups/1/labels''),
         Call (Request ''GET'' ''groups/1/labels'' [(''per_page'', JInt 2), (''page'', JInt 1)])
           (Inr (JList [label ''a'', label ''b''])),
         Log (DebugFetchingPage 2 ''groups/1/labels''),
         Call (Request ''GET'' ''groups/1/labels'' [(''per_page'', JInt 2), (''page'', JInt 2)])
           (Inr (JList [label ''c'', label ''d''])),
         Log (DebugFetchingPage 3 ''groups/1/labels''),
         Call (Request ''GET'' ''groups/1/labels'' [(''per_page'', JInt 2), (''page'', JInt 3)])
           (Inr (JList [])),
         Log (DebugNoMoreRecords ''groups/1/labels'')])
   \<and> list_all truthy [JList [label ''a'', label ''b''], JList [label ''c'', label ''d'']]
   \<and> \<not> shorter (JList [label ''a'', label ''b'']) 2
   \<and> make_paginated_request scripted ''groups/1/labels'' None 2 PageDone [] = (Stop, PageDone, [], [])"
  using page_sequence_ends [OF scenario_B_run] scenario_B_run by simp

section \<open>The top-level cursor paginator\<close>

lemma exec_last_page:
  "execute_query scripted ''Q'' (Some (dict_union [(''cursor'', JNull)] (or_empty None))) [last_page]
     = (Inr (JDict [(''projects'', collection [JDict plain_project] (page_info False JNull))]), [],
        [Call (graphql_request ''Q'' [(''cursor'', JNull)]) last_page])"
  by (simp add: execute_query_def dict_union_def last_page_def body_def)

lemma exec_empty_page:
  "execute_query scripted ''Q'' (Some (dict_union [(''cursor'', JNull)] (or_empty None))) [empty_page]
     = (Inr (JDict [(''projects'', collection [] (page_info False JNull))]), [],
        [Call (graphql_request ''Q'' [(''cursor'', JNull)]) empty_page])"
  by (simp add: execute_query_def dict_union_def empty_page_def body_def)

text \<open>
  Claim C6. \<open>query_page\<close> is the turn of the loop that sends the query with a given
  cursor, whichever turn it is. When the response it gets has empty items, the turn ends
  the sequence without a batch, and the finished generator yields nothing and calls
  nothing however long it is advanced. When the response has items and its
  \<open>hasNextPage\<close> is false, the turn yields the batch of that response, and the next
  advance ends the sequence without an event: no remote call follows either response.
\<close>

theorem cursor_sequence_terminal_responses:
  assumes exec: "execute_query send query (Some (dict_union [(''cursor'', cursor)] (or_empty variables))) w
                   = (Inr data, w', evs)"
      and rd: "subscript data resource_field = Inr resource_data"
      and nodes: "dict_get resource_data ''nodes'' (JList []) = Inr nodes"
  shows "(\<not> truthy nodes \<longrightarrow>
            query_page send query resource_field variables cursor w = (Stop, QueryDone, w', evs)
          \<and> drain (Suc fuel) (execute_paginated_query send query resource_field variables) QueryDone w'
              = ([], Completed, QueryDone, w', []))
       \<and> (truthy nodes \<and> py_iter nodes = Inr items
            \<and> subscript resource_data ''pageInfo'' = Inr pi
            \<and> subscript pi ''hasNextPage'' = Inr has_next \<and> \<not> truthy has_next \<longrightarrow>
            query_page send query resource_field variables cursor w
              = (Yield (nodes, map FetchStart [0..<length items]), QueryYielded resource_data, w', evs)
          \<and> drain (Suc fuel) (execute_paginated_query send query resource_field variables)
                (QueryYielded resource_data) w'
              = ([], Completed, QueryDone, w', []))"
  using exec rd nodes by (simp add: query_page_def)

theorem cursor_sequence_terminal_responses_witness:
  "query_page scripted ''Q'' ''projects'' None JNull [empty_page]
     = (Stop, QueryDone, [], [Call (graphql_request ''Q'' [(''cursor'', JNull)]) empty_page])
   \<and> drain (Suc 0) (execute_paginated_query scripted ''Q'' ''projects'' None) QueryDone []
     = ([], Completed, QueryDone, [], [])
   \<and> query_page scripted ''Q'' ''projects'' None JNull [last_page]
     = (Yield (JList [JDict plain_project], [FetchStart 0]),
        QueryYielded (collection [JDict plain_project] (page_info False JNull)), [],
        [Call (graphql_request ''Q'' [(''cursor'', JNull)]) last_page])
   \<and> drain (Suc 0) (execute_paginated_query scripted ''Q'' ''projects'' None)
        (QueryYielded (collection [JDict plain_project] (page_info False JNull))) []
     = ([], Completed, QueryDone, [], [])"
  using cursor_sequence_terminal_responses [OF exec_last_page, of "''projects''"
      "collection [JDict plain_project] (page_info False JNull)" "JList [JDict plain_project]"
      0 "[JDict plain_project]" "page_info False JNull" "JBool False"]
    cursor_sequence_terminal_responses [OF exec_empty_page, of "''projects''"
      "collection [] (page_info False JNull)" "JList []" 0]
  by (simp add: collection_def page_info_def)

text \<open>
  Claim C4 at the top level. The first response has a node, \<open>hasNextPage\<close> true and a
  null \<open>endCursor\<close>. The generator yields its batch and, advanced again, sends the same
  query with \<open>cursor\<close> null a second time; nothing is logged. (Two advances are run.)
\<close>

theorem top_level_requeries_without_cursor:
  "drain 2 (execute_paginated_query scripted ''Q'' ''projects'' None) QueryStart [stuck_page, stuck_page]
     = ([(JList [JDict plain_project], [FetchStart 0]), (JList [JDict plain_project], [FetchStart 0])],
        OutOfFuel, QueryYielded (collection [JDict plain_project] (page_info True JNull)), [],
        [Call (graphql_request ''Q'' [(''cursor'', JNull)]) stuck_page,
         Call (graphql_request ''Q'' [(''cursor'', JNull)]) stuck_page])"
  by (simp add: numeral_2_eq_2 query_page_def execute_query_def dict_union_def stuck_page_def
      body_def collection_def page_info_def)

section \<open>The nested-field stream\<close>

lemma execute_query_calls:
  "execute_query send query (Some vars) w = (res, w', evs) \<Longrightarrow>
     filter is_call evs = [Call (graphql_request query vars) (fst (send w (graphql_request query vars)))]
   \<and> w' = snd (send w (graphql_request query vars))"
  by (auto simp: execute_query_def Let_def split: sum.splits bool.splits)

lemma field_loop_calls:
  assumes "field_loop send rf query vars f pid pi cursor w = (r, pos', w', evs)"
      and "subscript pi ''hasNextPage'' = Inr has_next"
  shows "(\<not> truthy has_next \<longrightarrow> r = Stop \<and> evs = [] \<and> w' = w)
       \<and> (truthy has_next \<and> cursor \<noteq> JNull \<longrightarrow>
            filter is_call evs
              = [Call (graphql_request query (dict_union [(f @ ''Cursor'', cursor)] vars))
                   (fst (send w (graphql_request query (dict_union [(f @ ''Cursor'', cursor)] vars))))]
          \<and> w' = snd (send w (graphql_request query (dict_union [(f @ ''Cursor'', cursor)] vars))))
       \<and> (\<forall>y. r = Yield y \<longrightarrow> calls evs = 1 \<and> fst y = f)"
proof (cases "truthy has_next \<and> cursor \<noteq> JNull")
  case False
  with assms show ?thesis by (auto simp: field_loop_def split: if_splits)
next
  case True
  obtain res w1 evs1
    where ex: "execute_query send query (Some (dict_union [(f @ ''Cursor'', cursor)] vars)) w
                 = (res, w1, evs1)"
    by (metis prod_cases3)
  note c = execute_query_calls[OF ex]
  from assms True ex c show ?thesis
    by (auto simp: field_loop_def calls_def split: sum.splits prod.splits)
qed

lemma labels_first_advance:
  "paginate_field scripted ''projects'' ''Q'' [] [labelled_project] (FieldGen 0 ''labels'' FieldStart)
      [labels_page_two]
     = (Yield (''labels'', Alias 0 ''labels''),
        FieldGen 0 ''labels'' (FieldFirst (JStr ''1'') (page_info True (JStr ''c1''))),
        [labels_page_two], [])"
  by (simp add: labelled_project_def collection_def)

lemma labels_second_advance:
  "paginate_field scripted ''projects'' ''Q'' [] [labelled_project]
      (FieldGen 0 ''labels'' (FieldFirst (JStr ''1'') (page_info True (JStr ''c1'')))) [labels_page_two]
     = (Yield (''labels'', Fresh (JList [label ''c''])),
        FieldGen 0 ''labels'' (FieldNext (JStr ''1'') (collection [label ''c''] (page_info False JNull))),
        [],
        [Log (DebugFetchingField ''labels'' (JStr ''1'')),
         Call (graphql_request ''Q'' [(''labelsCursor'', JStr ''c1'')]) labels_page_two,
         Log (DebugYielding 1 ''labels'' (JStr ''1''))])"
  by (simp add: field_loop_def execute_query_def dict_union_def labels_page_two_def body_def
      collection_def page_info_def)

text \<open>
  Claim C7. The first advance of a nested-field stream makes no remote call and leaves
  the remote side as it was; what it yields is the field's name with the list that
  already sits in the parent. A later advance reads the \<open>pageInfo\<close> of the page before
  it: when \<open>hasNextPage\<close> is false it stops without an event; when it is true and the
  cursor is there it makes exactly one remote call, the query with the variable
  \<open>"<fieldName>Cursor"\<close> set to that cursor before the caller's variables are merged in;
  and every page it yields has cost exactly one call.
\<close>

theorem nested_stream_calls:
  "(paginate_field send rf query vars store (FieldGen p f FieldStart) w = (r, g, w', evs) \<longrightarrow>
       evs = [] \<and> w' = w
     \<and> (\<forall>y. r = Yield y \<longrightarrow>
           y = (f, Alias p f)
         \<and> (\<exists>parent field_data nodes.
               lookup_project store p = Inr parent \<and> subscript (JDict parent) f = Inr field_data
             \<and> subscript field_data ''nodes'' = Inr nodes \<and> deref store (Alias p f) = Inr nodes)))
 \<and> ((pos = FieldFirst pid pi \<or> (pos = FieldNext pid rfd \<and> subscript rfd ''pageInfo'' = Inr pi))
     \<and> subscript pi ''endCursor'' = Inr cursor \<and> subscript pi ''hasNextPage'' = Inr has_next
     \<and> paginate_field send rf query vars store (FieldGen p f pos) w = (r2, g2, w2, evs2) \<longrightarrow>
       (\<not> truthy has_next \<longrightarrow> r2 = Stop \<and> evs2 = [] \<and> w2 = w)
     \<and> (truthy has_next \<and> cursor \<noteq> JNull \<longrightarrow>
            filter is_call evs2
              = [Call (graphql_request query (dict_union [(f @ ''Cursor'', cursor)] vars))
                   (fst (send w (graphql_request query (dict_union [(f @ ''Cursor'', cursor)] vars))))]
          \<and> w2 = snd (send w (graphql_request query (dict_union [(f @ ''Cursor'', cursor)] vars))))
     \<and> (\<forall>y. r2 = Yield y \<longrightarrow> calls evs2 = 1 \<and> fst y = f))"
proof -
  have first: "evs = [] \<and> w' = w
     \<and> (\<forall>y. r = Yield y \<longrightarrow>
           y = (f, Alias p f)
         \<and> (\<exists>parent field_data nodes.
               lookup_project store p = Inr parent \<and> subscript (JDict parent) f = Inr field_data
             \<and> subscript field_data ''nodes'' = Inr nodes \<and> deref store (Alias p f) = Inr nodes))"
    if a: "paginate_field send rf query vars store (FieldGen p f FieldStart) w = (r, g, w', evs)"
    using a
    by (cases "p < length store"; cases "subscript (JDict (store ! p)) ''id''";
        cases "subscript (JDict (store ! p)) f")
       (auto split: sum.splits prod.splits if_splits)
  have later: "(\<not> truthy has_next \<longrightarrow> r2 = Stop \<and> evs2 = [] \<and> w2 = w)
     \<and> (truthy has_next \<and> cursor \<noteq> JNull \<longrightarrow>
            filter is_call evs2
              = [Call (graphql_request query (dict_union [(f @ ''Cursor'', cursor)] vars))
                   (fst (send w (graphql_request query (dict_union [(f @ ''Cursor'', cursor)] vars))))]
          \<and> w2 = snd (send w (graphql_request query (dict_union [(f @ ''Cursor'', cursor)] vars))))
     \<and> (\<forall>y. r2 = Yield y \<longrightarrow> calls evs2 = 1 \<and> fst y = f)"
    if a: "(pos = FieldFirst pid pi \<or> (pos = FieldNext pid rfd \<and> subscript rfd ''pageInfo'' = Inr pi))
     \<and> subscript pi ''endCursor'' = Inr cursor \<and> subscript pi ''hasNextPage'' = Inr has_next
     \<and> paginate_field send rf query vars store (FieldGen p f pos) w = (r2, g2, w2, evs2)"
  proof -
    from a obtain pos'
      where fl: "field_loop send rf query vars f pid pi cursor w = (r2, pos', w2, evs2)"
      by (auto split: prod.splits)
    from a have hn: "subscript pi ''hasNextPage'' = Inr has_next" by simp
    from field_loop_calls[OF fl hn] show ?thesis .
  qed
  from first later show ?thesis by blast
qed

theorem nested_stream_calls_witness:
  "paginate_field scripted ''projects'' ''Q'' [] [labelled_project] (FieldGen 0 ''labels'' FieldStart)
      [labels_page_two]
     = (Yield (''labels'', Alias 0 ''labels''),
        FieldGen 0 ''labels'' (FieldFirst (JStr ''1'') (page_info True (JStr ''c1''))),
        [labels_page_two], [])
   \<and> deref [labelled_project] (Alias 0 ''labels'') = Inr (JList [label ''a'', label ''b''])
   \<and> filter is_call
        [Log (DebugFetchingField ''labels'' (JStr ''1'')),
         Call (graphql_request ''Q'' [(''labelsCursor'', JStr ''c1'')]) labels_page_two,
         Log (DebugYielding 1 ''labels'' (JStr ''1''))]
     = [Call (graphql_request ''Q'' (dict_union [(''labels'' @ ''Cursor'', JStr ''c1'')] []))
          (fst (scripted [labels_page_two]
             (graphql_request ''Q'' (dict_union [(''labels'' @ ''Cursor'', JStr ''c1'')] []))))]
   \<and> calls
        [Log (DebugFetchingField ''labels'' (JStr ''1'')),
         Call (graphql_request ''Q'' [(''labelsCursor'', JStr ''c1'')]) labels_page_two,
         Log (DebugYielding 1 ''labels'' (JStr ''1''))] = 1"
  using nested_stream_calls [of scripted "''projects''" "''Q''" "[]" "[labelled_project]" 0
      "''labels''" "[labels_page_two]" "Yield (''labels'', Alias 0 ''labels'')"
      "FieldGen 0 ''labels'' (FieldFirst (JStr ''1'') (page_info True (JStr ''c1'')))"
      "[labels_page_two]" "[]"
      "FieldFirst (JStr ''1'') (page_info True (JStr ''c1''))" "JStr ''1''"
      "page_info True (JStr ''c1'')" JNull "JStr ''c1''" "JBool True"
      "Yield (''labels'', Fresh (JList [label ''c'']))"
      "FieldGen 0 ''labels'' (FieldNext (JStr ''1'') (collection [label ''c''] (page_info False JNull)))"
      "[]"
      "[Log (DebugFetchingField ''labels'' (JStr ''1'')),
        Call (graphql_request ''Q'' [(''labelsCursor'', JStr ''c1'')]) labels_page_two,
        Log (DebugYielding 1 ''labels'' (JStr ''1''))]"]
    labels_first_advance labels_second_advance
  by (simp add: page_info_def labelled_project_def collection_def dict_union_def calls_def
      labels_page_two_def body_def)

text \<open>
  Claim C8. A nested-field stream suspended at a page whose \<open>pageInfo\<close> has
  \<open>hasNextPage\<close> true and a null \<open>endCursor\<close>, whether the page came with the parent or
  from a re-query: its next advance logs the missing cursor and ends the stream as
  exhausted, with no exception and no remote call, the remote side untouched; the stream
  is then finished, and a further advance yields nothing and does nothing.
\<close>

theorem nested_stream_missing_cursor:
  assumes "pos = FieldFirst pid pi \<or> (pos = FieldNext pid rfd \<and> subscript rfd ''pageInfo'' = Inr pi)"
      and "subscript pi ''hasNextPage'' = Inr has_next" and "truthy has_next"
      and "subscript pi ''endCursor'' = Inr JNull"
  shows "paginate_field send rf query vars store (FieldGen p f pos) w
           = (Stop, FieldGen p f FieldDone, w, [Log (ErrorMissingCursor f pid)])
       \<and> paginate_field send rf query vars store (FieldGen p f FieldDone) w
           = (Stop, FieldGen p f FieldDone, w, [])"
  using assms by (auto simp: field_loop_def)

theorem nested_stream_missing_cursor_witness:
  "paginate_field scripted ''projects'' ''Q'' [] [labelled_project]
      (FieldGen 0 ''labels'' (FieldFirst (JStr ''1'') (page_info True JNull))) [labels_page_two]
     = (Stop, FieldGen 0 ''labels'' FieldDone, [labels_page_two],
        [Log (ErrorMissingCursor ''labels'' (JStr ''1''))])
   \<and> paginate_field scripted ''projects'' ''Q'' [] [labelled_project]
        (FieldGen 0 ''labels'' FieldDone) [labels_page_two]
     = (Stop, FieldGen 0 ''labels'' FieldDone, [labels_page_two], [])"
  using nested_stream_missing_cursor [of "FieldFirst (JStr ''1'') (page_info True JNull)" "JStr ''1''"
      "page_info True JNull" JNull "JBool True" scripted "''projects''" "''Q''" "[]"
      "[labelled_project]" 0 "''labels''" "[labels_page_two]"]
  by (simp add: page_info_def)

section \<open>The merge of one wave\<close>

lemma merge_results_skip:
  "\<not> is_yield r \<Longrightarrow>
     merge_results store (zs1 @ ((p, it), r) # zs2) = merge_results store (zs1 @ zs2)"
proof (induction store zs1 rule: merge_results.induct)
  case (1 store)
  then show ?case by (cases r) auto
next
  case (2 store q it' field_name nodes rest)
  then show ?case by (auto split: sum.splits prod.splits)
next
  case (3 store q it' e rest)
  then show ?case by simp
next
  case (4 store q it' rest)
  then show ?case by simp
qed

lemma bind_eq_Inr: "bind m f = Inr y \<longleftrightarrow> (\<exists>x. m = Inr x \<and> f x = Inr y)"
  by (cases m) auto

lemma subscript_eq_Inr: "subscript v k = Inr x \<longleftrightarrow> (\<exists>d. v = JDict d \<and> map_of d k = Some x)"
  by (cases v) (auto split: option.splits)

text \<open>What a successful \<open>extend\<close> step did: nothing for a falsy \<open>nodes\<close>, an append otherwise.\<close>

lemma extend_nodes_Inr:
  assumes "extend_nodes store p f nodes = Inr (store', upd)"
  shows "\<exists>v. deref store nodes = Inr v
           \<and> ((\<not> truthy v \<and> store' = store \<and> \<not> upd)
              \<or> (truthy v \<and> upd \<and> p < length store
                 \<and> (\<exists>fd xs items.
                       map_of (store ! p) f = Some (JDict fd) \<and> map_of fd ''nodes'' = Some (JList xs)
                     \<and> py_iter v = Inr items
                     \<and> store' = store[p := AList.update f
                                    (JDict (AList.update ''nodes'' (JList (xs @ items)) fd)) (store ! p)])))"
proof -
  from assms obtain v where v: "deref store nodes = Inr v"
    and rest: "(if \<not> truthy v then Inr (store, False)
       else bind (lookup_project store p) (\<lambda>project.
            bind (subscript (JDict project) f) (\<lambda>field_data.
            bind (subscript field_data ''nodes'') (\<lambda>target.
              case target of
                JList xs \<Rightarrow>
                  bind (py_iter v) (\<lambda>items.
                    Inr (store[p := set_field_nodes project f (JList (xs @ items))], True))
              | _ \<Rightarrow> Inl AttributeError)))) = Inr (store', upd)"
    by (auto simp: extend_nodes_def bind_eq_Inr)
  show ?thesis
  proof (cases "truthy v")
    case False
    with v rest show ?thesis by auto
  next
    case True
    with rest obtain project field_data target
      where lp: "lookup_project store p = Inr project"
        and fd: "subscript (JDict project) f = Inr field_data"
        and tg: "subscript field_data ''nodes'' = Inr target"
        and ex: "(case target of
                JList xs \<Rightarrow>
                  bind (py_iter v) (\<lambda>items.
                    Inr (store[p := set_field_nodes project f (JList (xs @ items))], True))
              | _ \<Rightarrow> Inl AttributeError) = Inr (store', upd)"
      by (auto simp: bind_eq_Inr)
    from ex obtain xs items where t: "target = JList xs" and it: "py_iter v = Inr items"
        and st: "store' = store[p := set_field_nodes project f (JList (xs @ items))]" and u: "upd"
      by (cases target) (auto simp: bind_eq_Inr)
    from lp have pl: "p < length store" and pr: "project = store ! p"
      by (auto split: if_splits)
    from tg obtain fd0 where f0: "field_data = JDict fd0" and n0: "map_of fd0 ''nodes'' = Some target"
      by (auto simp: subscript_eq_Inr)
    from fd f0 have mf: "map_of project f = Some (JDict fd0)"
      by (auto split: option.splits)
    from mf have sf: "set_field_nodes project f (JList (xs @ items))
        = AList.update f (JDict (AList.update ''nodes'' (JList (xs @ items)) fd0)) project"
      by (simp add: set_field_nodes_def)
    from v True u pl pr mf n0 t it st sf show ?thesis by auto
  qed
qed

lemma extend_nodes_frame:
  "extend_nodes store p f nodes = Inr (store', upd) \<Longrightarrow>
     length store' = length store \<and> (\<forall>q. q \<noteq> p \<longrightarrow> store' ! q = store ! q)"
  by (drule extend_nodes_Inr) auto

lemma merge_results_frame:
  "merge_results store zipped = (store', res) \<Longrightarrow>
     length store' = length store
   \<and> (\<forall>q. (\<forall>it y. ((q, it), Yield y) \<notin> set zipped) \<longrightarrow> store' ! q = store ! q)"
proof (induction store zipped arbitrary: store' res rule: merge_results.induct)
  case (1 store)
  then show ?case by simp
next
  case (2 store p it field_name nodes rest)
  show ?case
  proof (cases "extend_nodes store p field_name nodes")
    case (Inl e)
    with 2(2) show ?thesis by simp
  next
    case (Inr a)
    obtain st1 upd where a: "a = (st1, upd)" by (cases a) auto
    obtain st2 res2 where m: "merge_results st1 rest = (st2, res2)" by (cases "merge_results st1 rest") auto
    from 2(2) Inr a m have st: "store' = st2" by (auto split: sum.splits prod.splits)
    note ih = 2(1)[OF Inr a[symmetric] m]
    note fr = extend_nodes_frame[OF Inr[unfolded a]]
    have "store' ! q = store ! q"
      if q: "\<forall>it' y. ((q, it'), Yield y) \<notin> set (((p, it), Yield (field_name, nodes)) # rest)" for q
    proof -
      from q have "q \<noteq> p" by auto
      moreover from q have "\<forall>it' y. ((q, it'), Yield y) \<notin> set rest" by auto
      ultimately show ?thesis using ih fr st by auto
    qed
    with ih fr st show ?thesis by auto
  qed
next
  case (3 store p it e rest)
  then show ?case by auto
next
  case (4 store p it rest)
  then show ?case by auto
qed

lemma merge_results_next_active:
  "merge_results store zipped = (store', Inr (next_active, updated)) \<Longrightarrow>
     next_active = map fst (filter (\<lambda>z. is_yield (snd z)) zipped)"
proof (induction store zipped arbitrary: store' next_active updated rule: merge_results.induct)
  case (2 store p it field_name nodes rest)
  then show ?case by (auto split: sum.splits prod.splits)
qed auto

section \<open>The loop over waves\<close>

lemma gather_results:
  "gather adv store active w = (zipped, w', evs) \<Longrightarrow> ((p, it'), r) \<in> set zipped \<Longrightarrow>
     \<exists>it w0. (p, it) \<in> set active \<and> r = fst (adv store it w0)"
proof (induction active arbitrary: w zipped w' evs)
  case Nil
  then show ?case by simp
next
  case (Cons a active)
  obtain q it0 where a: "a = (q, it0)" by (cases a) auto
  obtain r1 it1 w1 evs1 where adv: "adv store it0 w = (r1, it1, w1, evs1)"
    by (metis prod_cases4)
  obtain zs w2 evs2 where g: "gather adv store active w1 = (zs, w2, evs2)"
    by (metis prod_cases3)
  from Cons.prems(1) a adv g have z: "zipped = ((q, it1), r1) # zs" by simp
  show ?case
  proof (cases "((p, it'), r) = ((q, it1), r1)")
    case True
    with adv a show ?thesis by (intro exI[of _ it0] exI[of _ w]) auto
  next
    case False
    with Cons.prems(2) z have "((p, it'), r) \<in> set zs" by auto
    from Cons.IH[OF g this] show ?thesis by auto
  qed
qed

lemma merge_wave_frame:
  assumes "merge_wave store zipped = (store', res)"
  shows "length store' = length store
       \<and> (\<forall>q. (\<forall>it y. ((q, it), Yield y) \<notin> set zipped) \<longrightarrow> store' ! q = store ! q)"
proof -
  obtain st r where m: "merge_results store zipped = (st, r)"
    by (cases "merge_results store zipped") auto
  with assms have "store' = st"
    by (auto simp: merge_wave_def split: sum.splits prod.splits if_splits)
  with merge_results_frame[OF m] show ?thesis by simp
qed

lemma merge_wave_next_active:
  assumes "merge_wave store zipped = (store', Inr (next_active, snap))"
  shows "next_active = map fst (filter (\<lambda>z. is_yield (snd z)) zipped)"
  using assms merge_results_next_active[of store zipped]
  by (auto simp: merge_wave_def split: sum.splits prod.splits if_splits)

text \<open>
  A project none of whose iterators yields in the first wave is never written to and is
  in no snapshot, however the loop ends.
\<close>

lemma process_leaves_silent_project:
  assumes "process_nested_fields fuel adv store active w = (snaps, out, store', w', evs)"
      and "\<forall>it w0. (p, it) \<in> set active \<longrightarrow> \<not> is_yield (fst (adv store it w0))"
  shows "store' ! p = store ! p \<and> (\<forall>s \<in> set snaps. p \<notin> set (fst s))"
  using assms
proof (induction fuel arbitrary: store active w snaps out store' w' evs)
  case 0
  then show ?case by (cases active) auto
next
  case (Suc n)
  show ?case
  proof (cases active)
    case Nil
    with Suc.prems show ?thesis by simp
  next
    case (Cons a as)
    obtain zipped w1 evs1 where g: "gather adv store active w = (zipped, w1, evs1)"
      by (metis prod_cases3)
    obtain st1 res where mw: "merge_wave store zipped = (st1, res)"
      by (cases "merge_wave store zipped") auto
    have silent: "\<forall>it y. ((p, it), Yield y) \<notin> set zipped"
    proof (intro allI notI)
      fix it y assume "((p, it), Yield y) \<in> set zipped"
      from gather_results[OF g this] obtain it0 w0
        where "(p, it0) \<in> set active" and "Yield y = fst (adv store it0 w0)"
        by blast
      with Suc.prems(2) show False by (metis is_yield.simps(1))
    qed
    from merge_wave_frame[OF mw] silent have keep: "st1 ! p = store ! p" by simp
    show ?thesis
    proof (cases res)
      case (Inl e)
      with Suc.prems(1) Cons g mw keep show ?thesis by simp
    next
      case (Inr b)
      obtain na snap where b: "b = (na, snap)" by (cases b) auto
      obtain snaps2 out2 st2 w2 evs2
        where rest: "process_nested_fields n adv st1 na w1 = (snaps2, out2, st2, w2, evs2)"
        by (metis prod_cases5)
      note na = merge_wave_next_active[OF mw[unfolded Inr b]]
      have notin: "p \<notin> fst ` set na"
      proof
        assume "p \<in> fst ` set na"
        then obtain it where "(p, it) \<in> set na" by auto
        with na obtain r where z: "((p, it), r) \<in> set zipped" and y: "is_yield r" by auto
        from y obtain v where "r = Yield v" by (cases r) auto
        with z silent show False by blast
      qed
      then have "\<forall>it w0. (p, it) \<in> set na \<longrightarrow> \<not> is_yield (fst (adv st1 it w0))" by force
      from Suc.IH[OF rest this] have ih: "st2 ! p = st1 ! p" "\<forall>s \<in> set snaps2. p \<notin> set (fst s)"
        by auto
      from Suc.prems(1) Cons g mw Inr b rest
      have "store' = st2"
        and "snaps = (case snap of None \<Rightarrow> [] | Some s \<Rightarrow> [(map fst na, s)]) @ snaps2"
        by auto
      with ih keep notin show ?thesis by (auto split: option.splits)
    qed
  qed
qed

section \<open>The first wave of a batch\<close>

lemma initial_active_map: "initial_active batch = map (\<lambda>p. (p, FetchStart p)) [0..<length batch]"
  by (simp add: initial_active_def zip_map2 zip_same_conv_map)

text \<open>The first advance of a field generator, and so of the chain, never reaches the remote side.\<close>

lemma fetch_chain_start:
  "fetch_chain send rf query vars store (FieldGen p f FieldStart) rest w = (r, g, w', evs) \<Longrightarrow>
     w' = w \<and> evs = [] \<and> r \<noteq> Stop"
  by (cases rest) (auto split: sum.splits prod.splits)

lemma fetch_start_local:
  "fetch_paginated_fields send rf query vars store (FetchStart p) w = (r, g, w', evs) \<Longrightarrow>
     w' = w \<and> evs = []"
  by (auto simp: field_generators_def split: sum.splits list.splits if_splits
      dest: fetch_chain_start)

lemma fetch_start_no_fields:
  "p < length store \<Longrightarrow> filter (\<lambda>kv. nested_shape (snd kv)) (store ! p) = [] \<Longrightarrow>
     fetch_paginated_fields send rf query vars store (FetchStart p) w = (Stop, FetchDone, w, [])"
  by (simp add: field_generators_def)

lemma gather_first_wave:
  "gather (fetch_paginated_fields send rf query vars) store (map (\<lambda>p. (p, FetchStart p)) ps) w
     = (zipped, w', evs) \<Longrightarrow>
   w' = w \<and> evs = []
   \<and> zipped = map (\<lambda>p. ((p, fst (snd (fetch_paginated_fields send rf query vars store (FetchStart p) w))),
                         fst (fetch_paginated_fields send rf query vars store (FetchStart p) w))) ps"
proof (induction ps arbitrary: zipped w' evs)
  case Nil
  then show ?case by simp
next
  case (Cons p ps)
  obtain r g w1 evs1
    where a: "fetch_paginated_fields send rf query vars store (FetchStart p) w = (r, g, w1, evs1)"
    by (metis prod_cases4)
  from fetch_start_local[OF a] have l: "w1 = w" "evs1 = []" by auto
  obtain zs w2 evs2
    where g: "gather (fetch_paginated_fields send rf query vars) store (map (\<lambda>p. (p, FetchStart p)) ps) w
                = (zs, w2, evs2)"
    by (metis prod_cases3)
  from Cons.IH[OF g] Cons.prems a l g show ?case by auto
qed

lemma merge_results_silent:
  "\<forall>z \<in> set zipped. \<not> is_yield (snd z) \<Longrightarrow> merge_results store zipped = (store, Inr ([], False))"
proof (induction store zipped rule: merge_results.induct)
qed auto

lemma no_fields_run:
  assumes run: "process_nested_fields fuel (fetch_paginated_fields send rf query vars) batch
                  (initial_active batch) w = (snaps, out, store', w', evs)"
      and none: "\<forall>p < length batch. filter (\<lambda>kv. nested_shape (snd kv)) (batch ! p) = []"
  shows "snaps = [] \<and> evs = [] \<and> store' = batch \<and> w' = w \<and> (0 < fuel \<longrightarrow> out = Completed)"
proof (cases "initial_active batch")
  case Nil
  with run show ?thesis by simp
next
  case (Cons a as)
  show ?thesis
  proof (cases fuel)
    case 0
    with run Cons show ?thesis by simp
  next
    case (Suc n)
    obtain zipped w1 evs1
      where g: "gather (fetch_paginated_fields send rf query vars) batch (initial_active batch) w
                  = (zipped, w1, evs1)"
      by (metis prod_cases3)
    note first = gather_first_wave[OF g[unfolded initial_active_map]]
    have "\<forall>z \<in> set zipped. \<not> is_yield (snd z)"
      using first none by (auto simp: field_generators_def)
    then have "merge_results batch zipped = (batch, Inr ([], False))"
      by (rule merge_results_silent)
    then have mw: "merge_wave batch zipped = (batch, Inr ([], None))"
      by (simp add: merge_wave_def)
    from run Suc Cons g mw first show ?thesis by simp
  qed
qed

lemma mixed_batch_run:
  "process_nested_fields 3 (fetch_paginated_fields scripted ''projects'' ''Q'' [])
      [labelled_project, plain_project] (initial_active [labelled_project, plain_project])
      [labels_page_two]
     = ([([0], [[(''id'', JStr ''1''),
                 (''labels'', collection [label ''a'', label ''b'', label ''a'', label ''b'']
                    (page_info True (JStr ''c1'')))]]),
         ([0], [[(''id'', JStr ''1''),
                 (''labels'', collection [label ''a'', label ''b'', label ''a'', label ''b'', label ''c'']
                    (page_info True (JStr ''c1'')))]])],
        Completed,
        [[(''id'', JStr ''1''),
          (''labels'', collection [label ''a'', label ''b'', label ''a'', label ''b'', label ''c'']
             (page_info True (JStr ''c1'')))],
         plain_project],
        [],
        [Log (DebugFetchingField ''labels'' (JStr ''1'')),
         Call (graphql_request ''Q'' [(''labelsCursor'', JStr ''c1'')]) labels_page_two,
         Log (DebugYielding 1 ''labels'' (JStr ''1''))])"
  by (simp add: numeral_3_eq_3 initial_active_def merge_wave_def extend_nodes_def
      set_field_nodes_def copy_field_def field_generators_def field_loop_def execute_query_def
      graphql_request_def dict_union_def labelled_project_def plain_project_def
      labels_page_two_def body_def collection_def page_info_def label_def)

lemma plain_batch_run:
  "process_nested_fields 1 (fetch_paginated_fields scripted ''projects'' ''Q'' [])
      [plain_project] (initial_active [plain_project]) [labels_page_two]
     = ([], Completed, [plain_project], [labels_page_two], [])"
  by (simp add: initial_active_def merge_wave_def field_generators_def plain_project_def)

text \<open>
  Claim C3, as stated, fails. The batch is a project with a nested collection and a
  project without one. The merger yields two snapshots; the first holds one record, the
  copy of project 0, and project 1, which has no field of nested shape, is not in it.
\<close>

theorem plain_project_counterexample:
  "fst (process_nested_fields 3 (fetch_paginated_fields scripted ''projects'' ''Q'' [])
          [labelled_project, plain_project] (initial_active [labelled_project, plain_project])
          [labels_page_two])
     = [([0], [[(''id'', JStr ''1''),
                (''labels'', collection [label ''a'', label ''b'', label ''a'', label ''b'']
                   (page_info True (JStr ''c1'')))]]),
        ([0], [[(''id'', JStr ''1''),
                (''labels'', collection [label ''a'', label ''b'', label ''a'', label ''b'', label ''c'']
                   (page_info True (JStr ''c1'')))]])]
   \<and> filter (\<lambda>kv. nested_shape (snd kv)) ([labelled_project, plain_project] ! 1) = []
   \<and> 1 \<notin> set [0::nat]"
proof -
  have "filter (\<lambda>kv. nested_shape (snd kv)) ([labelled_project, plain_project] ! 1) = []"
    by (simp add: plain_project_def)
  then show ?thesis by (simp add: mixed_batch_run)
qed

text \<open>
  Claim C3, amended. For every batch handed over as \<open>_execute_paginated_query\<close> yields
  it, and however the loop ends: a parent with no field of nested shape is in no
  snapshot the merger yields (its stream is exhausted at the first advance, so the first
  wave drops it before the first snapshot is built), and it is never written to; and if
  no parent of the batch has such a field, the merger yields no snapshot at all, makes
  no remote call, leaves the batch as it was, and ends after its first wave.
\<close>

theorem parent_without_nested_fields:
  assumes run: "process_nested_fields fuel (fetch_paginated_fields send rf query vars) batch
                  (initial_active batch) w = (snaps, out, store', w', evs)"
  shows "(\<forall>p < length batch. filter (\<lambda>kv. nested_shape (snd kv)) (batch ! p) = [] \<longrightarrow>
            store' ! p = batch ! p \<and> (\<forall>s \<in> set snaps. p \<notin> set (fst s)))
       \<and> ((\<forall>p < length batch. filter (\<lambda>kv. nested_shape (snd kv)) (batch ! p) = []) \<longrightarrow>
            snaps = [] \<and> evs = [] \<and> store' = batch \<and> w' = w \<and> (0 < fuel \<longrightarrow> out = Completed))"
proof -
  have one: "store' ! p = batch ! p \<and> (\<forall>s \<in> set snaps. p \<notin> set (fst s))"
    if p: "p < length batch"
      and none: "filter (\<lambda>kv. nested_shape (snd kv)) (batch ! p) = []" for p
  proof -
    have "\<forall>it w0. (p, it) \<in> set (initial_active batch) \<longrightarrow>
            \<not> is_yield (fst (fetch_paginated_fields send rf query vars batch it w0))"
      using p none by (auto simp: initial_active_map field_generators_def)
    from process_leaves_silent_project[OF run this] show ?thesis .
  qed
  have all: "snaps = [] \<and> evs = [] \<and> store' = batch \<and> w' = w \<and> (0 < fuel \<longrightarrow> out = Completed)"
    if "\<forall>p < length batch. filter (\<lambda>kv. nested_shape (snd kv)) (batch ! p) = []"
    using no_fields_run[OF run that] .
  from one all show ?thesis by blast
qed

theorem parent_without_nested_fields_witness:
  "process_nested_fields 3 (fetch_paginated_fields scripted ''projects'' ''Q'' [])
      [labelled_project, plain_project] (initial_active [labelled_project, plain_project])
      [labels_page_two]
     = ([([0], [[(''id'', JStr ''1''),
                 (''labels'', collection [label ''a'', label ''b'', label ''a'', label ''b'']
                    (page_info True (JStr ''c1'')))]]),
         ([0], [[(''id'', JStr ''1''),
                 (''labels'', collection [label ''a'', label ''b'', label ''a'', label ''b'', label ''c'']
                    (page_info True (JStr ''c1'')))]])],
        Completed,
        [[(''id'', JStr ''1''),
          (''labels'', collection [label ''a'', label ''b'', label ''a'', label ''b'', label ''c'']
             (page_info True (JStr ''c1'')))],
         plain_project],
        [],
        [Log (DebugFetchingField ''labels'' (JStr ''1'')),
         Call (graphql_request ''Q'' [(''labelsCursor'', JStr ''c1'')]) labels_page_two,
         Log (DebugYielding 1 ''labels'' (JStr ''1''))])
   \<and> filter (\<lambda>kv. nested_shape (snd kv)) ([labelled_project, plain_project] ! 1) = []
   \<and> [[(''id'', JStr ''1''),
        (''labels'', collection [label ''a'', label ''b'', label ''a'', label ''b'', label ''c'']
           (page_info True (JStr ''c1'')))],
       plain_project] ! 1 = [labelled_project, plain_project] ! 1
   \<and> 1 \<notin> set [0::nat]
   \<and> process_nested_fields 1 (fetch_paginated_fields scripted ''projects'' ''Q'' [])
        [plain_project] (initial_active [plain_project]) [labels_page_two]
     = ([], Completed, [plain_project], [labels_page_two], [])"
proof -
  have none: "filter (\<lambda>kv. nested_shape (snd kv)) ([labelled_project, plain_project] ! 1) = []"
    by (simp add: plain_project_def)
  have lt: "(1::nat) < length [labelled_project, plain_project]" by simp
  from parent_without_nested_fields [OF mixed_batch_run] lt none
  have kept: "[[(''id'', JStr ''1''),
        (''labels'', collection [label ''a'', label ''b'', label ''a'', label ''b'', label ''c'']
           (page_info True (JStr ''c1'')))],
       plain_project] ! 1 = [labelled_project, plain_project] ! 1"
    by blast
  have all_plain: "\<forall>p < length [plain_project].
      filter (\<lambda>kv. nested_shape (snd kv)) ([plain_project] ! p) = []"
    by (simp add: plain_project_def)
  from parent_without_nested_fields [OF plain_batch_run] all_plain
  have "([]::(nat list \<times> (string \<times> json) list list) list) = []" by blast
  with mixed_batch_run plain_batch_run none kept show ?thesis by simp
qed

section \<open>The first page is appended to itself\<close>











section \<open>Merging only appends\<close>

lemma grown_refl: "grown v v"
  by (simp add: grown_def)

lemma grown_trans:
  assumes "grown a b" and "grown b c"
  shows "grown a c"
proof (cases "b = a \<or> c = b")
  case True
  with assms show ?thesis by auto
next
  case False
  with assms(1) obtain fd xs ys where a: "a = JDict fd" "map_of fd ''nodes'' = Some (JList xs)"
      and b: "b = JDict (AList.update ''nodes'' (JList (xs @ ys)) fd)"
    by (auto simp: grown_def)
  from False assms(2) obtain fd' xs' ys' where b': "b = JDict fd'"
      "map_of fd' ''nodes'' = Some (JList xs')"
      and c: "c = JDict (AList.update ''nodes'' (JList (xs' @ ys')) fd')"
    by (auto simp: grown_def)
  from b b' have "fd' = AList.update ''nodes'' (JList (xs @ ys)) fd" by simp
  with b'(2) have "xs' = xs @ ys" by (simp add: update_conv')
  with c \<open>fd' = _\<close> have "c = JDict (AList.update ''nodes'' (JList (xs @ (ys @ ys'))) fd)"
    by simp
  with a show ?thesis unfolding grown_def by blast
qed

lemma grown_dict_refl: "grown_dict d d"
  by (simp add: grown_dict_def list_all2_refl grown_refl)

lemma grown_dict_trans:
  assumes "grown_dict a b" and "grown_dict b c"
  shows "grown_dict a c"
  unfolding grown_dict_def
  by (rule list_all2_trans[OF _ assms(1)[unfolded grown_dict_def] assms(2)[unfolded grown_dict_def]])
     (auto intro: grown_trans)

lemma grown_store_refl: "grown_store s s"
  by (simp add: grown_store_def list_all2_refl grown_dict_refl)

lemma grown_store_trans:
  assumes "grown_store a b" and "grown_store b c"
  shows "grown_store a c"
  unfolding grown_store_def
  by (rule list_all2_trans[OF _ assms(1)[unfolded grown_store_def] assms(2)[unfolded grown_store_def]])
     (auto intro: grown_dict_trans)

lemma grown_dict_update:
  "map_of d f = Some v \<Longrightarrow> grown v v' \<Longrightarrow> grown_dict d (AList.update f v' d)"
proof (induction d)
  case Nil
  then show ?case by simp
next
  case (Cons kv d)
  then show ?case
    by (cases kv) (auto simp: grown_dict_def grown_refl list_all2_refl split: if_splits)
qed

lemma extend_nodes_grown:
  assumes "extend_nodes store p f nodes = Inr (store', upd)"
  shows "grown_store store store'"
proof -
  from extend_nodes_Inr[OF assms] consider "store' = store"
    | fd xs items where "p < length store" "map_of (store ! p) f = Some (JDict fd)"
        "map_of fd ''nodes'' = Some (JList xs)"
        "store' = store[p := AList.update f
                    (JDict (AList.update ''nodes'' (JList (xs @ items)) fd)) (store ! p)]"
    by blast
  then show ?thesis
  proof cases
    case 1
    then show ?thesis by (simp add: grown_store_refl)
  next
    case 2
    have "grown (JDict fd) (JDict (AList.update ''nodes'' (JList (xs @ items)) fd))"
      using 2(3) unfolding grown_def by blast
    from grown_dict_update[OF 2(2) this]
    have "list_all2 grown_dict (store[p := store ! p])
            (store[p := AList.update f
                    (JDict (AList.update ''nodes'' (JList (xs @ items)) fd)) (store ! p)])"
      by (intro list_all2_update_cong) (simp_all add: list_all2_refl grown_dict_refl)
    with 2(4) show ?thesis by (simp add: grown_store_def)
  qed
qed

lemma merge_results_grown:
  "merge_results store zipped = (store', res) \<Longrightarrow> grown_store store store'"
proof (induction store zipped arbitrary: store' res rule: merge_results.induct)
  case (1 store)
  then show ?case by (simp add: grown_store_refl)
next
  case (2 store p it field_name nodes rest)
  show ?case
  proof (cases "extend_nodes store p field_name nodes")
    case (Inl e)
    with 2(2) show ?thesis by (simp add: grown_store_refl)
  next
    case (Inr a)
    obtain st1 upd where a: "a = (st1, upd)" by (cases a) auto
    obtain st2 res2 where m: "merge_results st1 rest = (st2, res2)"
      by (cases "merge_results st1 rest") auto
    from 2(2) Inr a m have st: "store' = st2" by (auto split: sum.splits prod.splits)
    from 2(1)[OF Inr a[symmetric] m] extend_nodes_grown[OF Inr[unfolded a]] st
    show ?thesis by (auto intro: grown_store_trans)
  qed
next
  case (3 store p it e rest)
  then show ?case by auto
next
  case (4 store p it rest)
  then show ?case by auto
qed

lemma merge_wave_grown:
  assumes "merge_wave store zipped = (store', res)"
  shows "grown_store store store'"
proof -
  obtain st r where m: "merge_results store zipped = (st, r)"
    by (cases "merge_results store zipped") auto
  with assms have "store' = st"
    by (auto simp: merge_wave_def split: sum.splits prod.splits if_splits)
  with merge_results_grown[OF m] show ?thesis by simp
qed

lemma merge_wave_snapshot:
  "merge_wave store zipped = (store', Inr (next_active, Some s)) \<Longrightarrow>
     snapshot store' (map fst next_active) = Inr s"
  by (auto simp: merge_wave_def split: sum.splits prod.splits if_splits)

lemma field_items_Cons:
  "field_items ((k, v) # d) key = (if key = k then node_items v else field_items d key)"
  by (simp add: field_items_def)

lemma copy_field_grown:
  assumes g: "grown v v'" and c: "copy_field k v = Inr cv" and c': "copy_field k v' = Inr cv'"
      and items: "node_items cv = Some xs"
  shows "\<exists>ys. node_items cv' = Some (xs @ ys)"
proof (cases "v' = v")
  case True
  with c c' items show ?thesis by simp
next
  case False
  with g obtain fd xs0 ys0 where v: "v = JDict fd" and n: "map_of fd ''nodes'' = Some (JList xs0)"
      and v': "v' = JDict (AList.update ''nodes'' (JList (xs0 @ ys0)) fd)"
    by (auto simp: grown_def)
  from n have "(''nodes'', JList xs0) \<in> set fd" by (rule map_of_SomeD)
  then have key: "''nodes'' \<in> fst ` set fd" by force
  show ?thesis
  proof (cases "k = ''id''")
    case True
    with c c' v v' have "cv = v" "cv' = v'" by (simp_all add: copy_field_def)
    with items v v' n show ?thesis by (auto simp: node_items_def update_conv')
  next
    case False
    with c v n key obtain pi where cv: "cv = JDict [(''nodes'', JList xs0), (''pageInfo'', pi)]"
      by (auto simp: copy_field_def bind_eq_Inr)
    from False c' v' key obtain pi' where cv': "cv' = JDict [(''nodes'', JList (xs0 @ ys0)), (''pageInfo'', pi')]"
      by (auto simp: copy_field_def bind_eq_Inr update_conv' AList.dom_update split: option.splits)
    from items cv cv' show ?thesis by (auto simp: node_items_def)
  qed
qed

lemma copy_project_Cons_Inr:
  "copy_project ((k, v) # d) = Inr c \<longleftrightarrow>
     (\<exists>cv cs. copy_field k v = Inr cv \<and> copy_project d = Inr cs \<and> c = (k, cv) # cs)"
  by (auto simp: bind_eq_Inr)

lemma copy_project_grown:
  assumes "grown_dict d d'" and "copy_project d = Inr c" and "copy_project d' = Inr c'"
      and "field_items c key = Some xs"
  shows "\<exists>ys. field_items c' key = Some (xs @ ys)"
  using assms
proof (induction d arbitrary: d' c c')
  case Nil
  then show ?case by (simp add: field_items_def)
next
  case (Cons kv d)
  obtain k v where kv: "kv = (k, v)" by (cases kv) auto
  from Cons.prems(1)[unfolded grown_dict_def list_all2_Cons1] obtain z rest'
    where d0: "d' = z # rest'" and z: "fst z = fst kv \<and> grown (snd kv) (snd z)"
      and r: "list_all2 (\<lambda>kv kv'. fst kv' = fst kv \<and> grown (snd kv) (snd kv')) d rest'"
    by blast
  obtain v' where zv: "z = (k, v')" using z kv by (cases z) auto
  from z kv zv have gv: "grown v v'" by simp
  from r have gr: "grown_dict d rest'" by (simp add: grown_dict_def)
  from d0 zv have d': "d' = (k, v') # rest'" by simp
  from Cons.prems(2)[unfolded kv copy_project_Cons_Inr] obtain cv cs
    where cf: "copy_field k v = Inr cv" and cp: "copy_project d = Inr cs" and c: "c = (k, cv) # cs"
    by blast
  from Cons.prems(3)[unfolded d' copy_project_Cons_Inr] obtain cv' cs'
    where cf': "copy_field k v' = Inr cv'" and cp': "copy_project rest' = Inr cs'"
      and c': "c' = (k, cv') # cs'"
    by blast
  show ?case
  proof (cases "key = k")
    case True
    with Cons.prems(4) c have "node_items cv = Some xs"
      by (simp add: field_items_Cons)
    from copy_field_grown[OF gv cf cf' this] True c' show ?thesis
      by (simp add: field_items_Cons)
  next
    case False
    with Cons.prems(4) c have "field_items cs key = Some xs" by (simp add: field_items_Cons)
    from Cons.IH[OF gr cp cp' this] False c' show ?thesis by (simp add: field_items_Cons)
  qed
qed

lemma snapshot_nth:
  "snapshot st ps = Inr s \<Longrightarrow>
     length s = length ps
   \<and> (\<forall>a < length ps. ps ! a < length st \<and> copy_project (st ! (ps ! a)) = Inr (s ! a))"
proof (induction ps arbitrary: s)
  case Nil
  then show ?case by simp
next
  case (Cons p ps)
  from Cons.prems obtain c cs where p: "p < length st" and c: "copy_project (st ! p) = Inr c"
      and cs: "snapshot st ps = Inr cs" and s: "s = c # cs"
    by (auto simp: bind_eq_Inr split: if_splits)
  from Cons.IH[OF cs] p c s show ?case by (auto simp: nth_Cons split: nat.splits)
qed

text \<open>
  Every snapshot of a run is the copy of a store, and the stores of the successive
  snapshots have grown from one to the next.
\<close>

lemma process_snapshot_stores:
  "process_nested_fields fuel adv store active w = (snaps, out, store', w', evs) \<Longrightarrow>
     \<exists>stores. list_all2 (\<lambda>st s. snapshot st (fst s) = Inr (snd s)) stores snaps
       \<and> list_all (grown_store store) stores \<and> sorted_wrt grown_store stores"
proof (induction fuel arbitrary: store active w snaps out store' w' evs)
  case 0
  then show ?case by (cases active) auto
next
  case (Suc n)
  show ?case
  proof (cases active)
    case Nil
    with Suc.prems show ?thesis by simp
  next
    case (Cons a as)
    obtain zipped w1 evs1 where g: "gather adv store active w = (zipped, w1, evs1)"
      by (metis prod_cases3)
    obtain st1 res where mw: "merge_wave store zipped = (st1, res)"
      by (cases "merge_wave store zipped") auto
    note g1 = merge_wave_grown[OF mw]
    show ?thesis
    proof (cases res)
      case (Inl e)
      with Suc.prems Cons g mw show ?thesis by simp
    next
      case (Inr b)
      obtain na snap where b: "b = (na, snap)" by (cases b) auto
      obtain snaps2 out2 st2 w2 evs2
        where rest: "process_nested_fields n adv st1 na w1 = (snaps2, out2, st2, w2, evs2)"
        by (metis prod_cases5)
      from Suc.IH[OF rest] obtain stores2
        where l2: "list_all2 (\<lambda>st s. snapshot st (fst s) = Inr (snd s)) stores2 snaps2"
          and a2: "list_all (grown_store st1) stores2" and s2: "sorted_wrt grown_store stores2"
        by blast
      from a2 g1 have a2': "list_all (grown_store store) stores2"
        by (auto simp: list_all_iff intro: grown_store_trans)
      from Suc.prems Cons g mw Inr b rest
      have snaps: "snaps = (case snap of None \<Rightarrow> [] | Some s \<Rightarrow> [(map fst na, s)]) @ snaps2"
        by auto
      show ?thesis
      proof (cases snap)
        case None
        with snaps l2 a2' s2 show ?thesis by auto
      next
        case (Some s)
        from merge_wave_snapshot[OF mw[unfolded Inr b Some]]
        have sn: "snapshot st1 (map fst na) = Inr s" .
        from a2 have "\<forall>x \<in> set stores2. grown_store st1 x" by (simp add: list_all_iff)
        with snaps Some l2 a2' s2 sn g1
        have "list_all2 (\<lambda>st s. snapshot st (fst s) = Inr (snd s)) (st1 # stores2) snaps
           \<and> list_all (grown_store store) (st1 # stores2) \<and> sorted_wrt grown_store (st1 # stores2)"
          by simp
        then show ?thesis by blast
      qed
    qed
  qed
qed

lemma extend_nodes_appends:
  assumes "extend_nodes store p f nodes = Inr (store2, upd)"
  shows "if upd
         then \<exists>old new. field_items (store ! p) f = Some old
                \<and> bind (deref store nodes) py_iter = Inr new
                \<and> field_items (store2 ! p) f = Some (old @ new)
         else store2 = store"
proof -
  from extend_nodes_Inr[OF assms] obtain v where v: "deref store nodes = Inr v"
    and cases: "(\<not> truthy v \<and> store2 = store \<and> \<not> upd)
              \<or> (truthy v \<and> upd \<and> p < length store
                 \<and> (\<exists>fd xs items.
                       map_of (store ! p) f = Some (JDict fd) \<and> map_of fd ''nodes'' = Some (JList xs)
                     \<and> py_iter v = Inr items
                     \<and> store2 = store[p := AList.update f
                                    (JDict (AList.update ''nodes'' (JList (xs @ items)) fd)) (store ! p)]))"
    by blast
  from cases show ?thesis
  proof
    assume "\<not> truthy v \<and> store2 = store \<and> \<not> upd"
    then show ?thesis by simp
  next
    assume "truthy v \<and> upd \<and> p < length store
                 \<and> (\<exists>fd xs items.
                       map_of (store ! p) f = Some (JDict fd) \<and> map_of fd ''nodes'' = Some (JList xs)
                     \<and> py_iter v = Inr items
                     \<and> store2 = store[p := AList.update f
                                    (JDict (AList.update ''nodes'' (JList (xs @ items)) fd)) (store ! p)])"
    then obtain fd xs items where u: "upd" and p: "p < length store"
        and fd: "map_of (store ! p) f = Some (JDict fd)" and ns: "map_of fd ''nodes'' = Some (JList xs)"
        and it: "py_iter v = Inr items"
        and st: "store2 = store[p := AList.update f
                   (JDict (AList.update ''nodes'' (JList (xs @ items)) fd)) (store ! p)]"
      by blast
    from fd ns have old: "field_items (store ! p) f = Some xs"
      by (simp add: field_items_def node_items_def)
    from v it have new: "bind (deref store nodes) py_iter = Inr items" by simp
    from p st have "field_items (store2 ! p) f = Some (xs @ items)"
      by (simp add: field_items_def node_items_def update_conv')
    with u old new show ?thesis by auto
  qed
qed

lemma snapshots_grow:
  assumes run: "process_nested_fields fuel adv store active w = (snaps, out, store', w', evs)"
      and ij: "i \<le> j" "j < length snaps"
      and a: "a < length (fst (snaps ! i))" and b: "b < length (fst (snaps ! j))"
      and same: "fst (snaps ! i) ! a = fst (snaps ! j) ! b"
      and items: "field_items (snd (snaps ! i) ! a) key = Some xs"
  shows "\<exists>ys. field_items (snd (snaps ! j) ! b) key = Some (xs @ ys)"
proof -
  from process_snapshot_stores[OF run] obtain stores
    where l: "list_all2 (\<lambda>st s. snapshot st (fst s) = Inr (snd s)) stores snaps"
      and s: "sorted_wrt grown_store stores"
    by blast
  from l have len: "length stores = length snaps" by (rule list_all2_lengthD)
  from ij have i: "i < length snaps" by simp
  from l i len have si: "snapshot (stores ! i) (fst (snaps ! i)) = Inr (snd (snaps ! i))"
    by (simp add: list_all2_conv_all_nth)
  from l ij len have sj: "snapshot (stores ! j) (fst (snaps ! j)) = Inr (snd (snaps ! j))"
    by (simp add: list_all2_conv_all_nth)
  have g: "grown_store (stores ! i) (stores ! j)"
  proof (cases "i = j")
    case True
    then show ?thesis by (simp add: grown_store_refl)
  next
    case False
    with ij have "i < j" by simp
    with s ij len show ?thesis by (simp add: sorted_wrt_nth_less)
  qed
  define q where "q = fst (snaps ! i) ! a"
  from snapshot_nth[OF si] a q_def
  have qi: "q < length (stores ! i)" and ci: "copy_project (stores ! i ! q) = Inr (snd (snaps ! i) ! a)"
    by auto
  from snapshot_nth[OF sj] b same q_def
  have cj: "copy_project (stores ! j ! q) = Inr (snd (snaps ! j) ! b)"
    by auto
  from g qi have "grown_dict (stores ! i ! q) (stores ! j ! q)"
    by (simp add: grown_store_def list_all2_conv_all_nth)
  from copy_project_grown[OF this ci cj items] show ?thesis .
qed

text \<open>
  Claim C2. Take any two snapshots of one run of the merger, the second not before the
  first, and a parent that is in both. Every field of it that has an item list in the
  first has one in the second, and the second list is the first with items appended: it
  is at least as long, and what was there is still there, in the same order. And every
  merge step that changes the store replaces the item list of the field it names, in
  the parent of the pair, by that list followed by the items that arrived, in the order
  they arrived in; a merge step that changes nothing leaves the store as it was. The
  streams are arbitrary: this holds for every result they can give.
\<close>

theorem merged_items_only_grow:
  "(process_nested_fields fuel adv store active w = (snaps, out, store', w', evs)
      \<and> i \<le> j \<and> j < length snaps
      \<and> a < length (fst (snaps ! i)) \<and> b < length (fst (snaps ! j))
      \<and> fst (snaps ! i) ! a = fst (snaps ! j) ! b
      \<and> field_items (snd (snaps ! i) ! a) key = Some xs
      \<longrightarrow> (\<exists>ys. field_items (snd (snaps ! j) ! b) key = Some (xs @ ys)
                \<and> length xs \<le> length (xs @ ys)))
   \<and> (extend_nodes st p f nodes = Inr (st2, upd) \<longrightarrow>
        (if upd
         then \<exists>old new. field_items (st ! p) f = Some old
                \<and> bind (deref st nodes) py_iter = Inr new
                \<and> field_items (st2 ! p) f = Some (old @ new)
         else st2 = st))"
proof -
  have one: "\<exists>ys. field_items (snd (snaps ! j) ! b) key = Some (xs @ ys)
                \<and> length xs \<le> length (xs @ ys)"
    if h: "process_nested_fields fuel adv store active w = (snaps, out, store', w', evs)
      \<and> i \<le> j \<and> j < length snaps
      \<and> a < length (fst (snaps ! i)) \<and> b < length (fst (snaps ! j))
      \<and> fst (snaps ! i) ! a = fst (snaps ! j) ! b
      \<and> field_items (snd (snaps ! i) ! a) key = Some xs"
  proof -
    from h have "\<exists>ys. field_items (snd (snaps ! j) ! b) key = Some (xs @ ys)"
      by (intro snapshots_grow[of fuel adv store active w snaps out store' w' evs i j a b key xs])
         simp_all
    then show ?thesis by auto
  qed
  have two: "if upd
         then \<exists>old new. field_items (st ! p) f = Some old
                \<and> bind (deref st nodes) py_iter = Inr new
                \<and> field_items (st2 ! p) f = Some (old @ new)
         else st2 = st"
    if "extend_nodes st p f nodes = Inr (st2, upd)"
    using extend_nodes_appends[OF that] .
  from one two show ?thesis by blast
qed

lemma extend_with_fresh_page:
  "extend_nodes [labelled_project, plain_project] 0 ''labels'' (Fresh (JList [label ''c'']))
     = Inr ([[(''id'', JStr ''1''),
              (''labels'', collection [label ''a'', label ''b'', label ''c''] (page_info True (JStr ''c1'')))],
             plain_project], True)"
  by (simp add: extend_nodes_def set_field_nodes_def labelled_project_def collection_def)

theorem merged_items_only_grow_witness:
  "field_items
      (snd (fst (process_nested_fields 3 (fetch_paginated_fields scripted ''projects'' ''Q'' [])
                   [labelled_project, plain_project] (initial_active [labelled_project, plain_project])
                   [labels_page_two]) ! 0) ! 0) ''labels''
     = Some [label ''a'', label ''b'', label ''a'', label ''b'']
   \<and> field_items
      (snd (fst (process_nested_fields 3 (fetch_paginated_fields scripted ''projects'' ''Q'' [])
                   [labelled_project, plain_project] (initial_active [labelled_project, plain_project])
                   [labels_page_two]) ! 1) ! 0) ''labels''
     = Some ([label ''a'', label ''b'', label ''a'', label ''b''] @ [label ''c''])
   \<and> field_items ([labelled_project, plain_project] ! 0) ''labels'' = Some [label ''a'', label ''b'']
   \<and> bind (deref [labelled_project, plain_project] (Fresh (JList [label ''c'']))) py_iter
     = Inr [label ''c'']
   \<and> field_items
       ([[(''id'', JStr ''1''),
          (''labels'', collection [label ''a'', label ''b'', label ''c''] (page_info True (JStr ''c1'')))],
         plain_project] ! 0) ''labels''
     = Some ([label ''a'', label ''b''] @ [label ''c''])"
proof -
  let ?snaps = "fst (process_nested_fields 3 (fetch_paginated_fields scripted ''projects'' ''Q'' [])
                   [labelled_project, plain_project] (initial_active [labelled_project, plain_project])
                   [labels_page_two])"
  have first: "field_items (snd (?snaps ! 0) ! 0) ''labels''
      = Some [label ''a'', label ''b'', label ''a'', label ''b'']"
    by (simp add: mixed_batch_run field_items_def node_items_def collection_def)
  have hyp: "process_nested_fields 3 (fetch_paginated_fields scripted ''projects'' ''Q'' [])
        [labelled_project, plain_project] (initial_active [labelled_project, plain_project])
        [labels_page_two]
       = (?snaps, Completed,
          [[(''id'', JStr ''1''),
            (''labels'', collection [label ''a'', label ''b'', label ''a'', label ''b'', label ''c'']
               (page_info True (JStr ''c1'')))],
           plain_project],
          [],
          [Log (DebugFetchingField ''labels'' (JStr ''1'')),
           Call (graphql_request ''Q'' [(''labelsCursor'', JStr ''c1'')]) labels_page_two,
           Log (DebugYielding 1 ''labels'' (JStr ''1''))])
      \<and> (0::nat) \<le> 1 \<and> 1 < length ?snaps
      \<and> 0 < length (fst (?snaps ! 0)) \<and> 0 < length (fst (?snaps ! 1))
      \<and> fst (?snaps ! 0) ! 0 = fst (?snaps ! 1) ! 0
      \<and> field_items (snd (?snaps ! 0) ! 0) ''labels''
          = Some [label ''a'', label ''b'', label ''a'', label ''b'']"
    using first by (simp add: mixed_batch_run)
  note t = merged_items_only_grow [of 3 "fetch_paginated_fields scripted ''projects'' ''Q'' []"
      "[labelled_project, plain_project]" "initial_active [labelled_project, plain_project]"
      "[labels_page_two]" ?snaps Completed _ "[]" _ 0 1 0 0 "''labels''"
      "[label ''a'', label ''b'', label ''a'', label ''b'']"
      "[labelled_project, plain_project]" 0 "''labels''" "Fresh (JList [label ''c''])"
      "[[(''id'', JStr ''1''),
         (''labels'', collection [label ''a'', label ''b'', label ''c''] (page_info True (JStr ''c1'')))],
        plain_project]" True]
  from t hyp obtain ys
    where grow: "field_items (snd (?snaps ! 1) ! 0) ''labels''
        = Some ([label ''a'', label ''b'', label ''a'', label ''b''] @ ys)"
    by blast
  have second: "field_items (snd (?snaps ! 1) ! 0) ''labels''
      = Some ([label ''a'', label ''b'', label ''a'', label ''b''] @ [label ''c''])"
    by (simp add: mixed_batch_run field_items_def node_items_def collection_def)
  from t extend_with_fresh_page
  have "\<exists>old new. field_items ([labelled_project, plain_project] ! 0) ''labels'' = Some old
          \<and> bind (deref [labelled_project, plain_project] (Fresh (JList [label ''c'']))) py_iter = Inr new
          \<and> field_items
              ([[(''id'', JStr ''1''),
                 (''labels'', collection [label ''a'', label ''b'', label ''c''] (page_info True (JStr ''c1'')))],
                plain_project] ! 0) ''labels'' = Some (old @ new)"
    by simp
  then obtain old new
    where o: "field_items ([labelled_project, plain_project] ! 0) ''labels'' = Some old"
      and n: "bind (deref [labelled_project, plain_project] (Fresh (JList [label ''c'']))) py_iter = Inr new"
      and m: "field_items
              ([[(''id'', JStr ''1''),
                 (''labels'', collection [label ''a'', label ''b'', label ''c''] (page_info True (JStr ''c1'')))],
                plain_project] ! 0) ''labels'' = Some (old @ new)"
    by blast
  from o have o': "old = [label ''a'', label ''b'']"
    by (simp add: field_items_def node_items_def labelled_project_def collection_def)
  from n have n': "new = [label ''c'']" by simp
  from first second o n m o' n' show ?thesis by simp
qed

section \<open>A stream that fails\<close>

lemma gather_length: "gather adv store active w = (zipped, w', evs) \<Longrightarrow> length zipped = length active"
proof (induction active arbitrary: w zipped w' evs)
  case Nil
  then show ?case by simp
next
  case (Cons a active)
  obtain q it0 where a: "a = (q, it0)" by (cases a) auto
  obtain r1 it1 w1 evs1 where adv: "adv store it0 w = (r1, it1, w1, evs1)"
    by (metis prod_cases4)
  obtain zs w2 evs2 where g: "gather adv store active w1 = (zs, w2, evs2)"
    by (metis prod_cases3)
  from Cons.prems a adv g have "zipped = ((q, it1), r1) # zs" by simp
  with Cons.IH[OF g] show ?case by simp
qed

text \<open>A copy shows the item lists of the record it was made from.\<close>

lemma copy_field_items:
  assumes "copy_field k v = Inr cv" and "node_items v = Some xs"
  shows "node_items cv = Some xs"
proof -
  from assms(2) obtain fd where v: "v = JDict fd" and n: "map_of fd ''nodes'' = Some (JList xs)"
    by (auto simp: node_items_def split: json.splits option.splits)
  from n have "(''nodes'', JList xs) \<in> set fd" by (rule map_of_SomeD)
  then have key: "''nodes'' \<in> fst ` set fd" by force
  show ?thesis
  proof (cases "k = ''id''")
    case True
    with assms v show ?thesis by (simp add: copy_field_def)
  next
    case False
    with assms(1) v n key obtain pi where "cv = JDict [(''nodes'', JList xs), (''pageInfo'', pi)]"
      by (auto simp: copy_field_def bind_eq_Inr)
    then show ?thesis by (simp add: node_items_def)
  qed
qed

lemma copy_project_items:
  assumes "copy_project d = Inr c" and "field_items d key = Some xs"
  shows "field_items c key = Some xs"
  using assms
proof (induction d arbitrary: c)
  case Nil
  then show ?case by (simp add: field_items_def)
next
  case (Cons kv d)
  obtain k v where kv: "kv = (k, v)" by (cases kv) auto
  from Cons.prems(1)[unfolded kv copy_project_Cons_Inr] obtain cv cs
    where cf: "copy_field k v = Inr cv" and cp: "copy_project d = Inr cs" and c: "c = (k, cv) # cs"
    by blast
  show ?case
  proof (cases "key = k")
    case True
    with Cons.prems(2) kv have "node_items v = Some xs" by (simp add: field_items_Cons)
    from copy_field_items[OF cf this] True c show ?thesis by (simp add: field_items_Cons)
  next
    case False
    with Cons.prems(2) kv have "field_items d key = Some xs" by (simp add: field_items_Cons)
    from Cons.IH[OF cp this] False c show ?thesis by (simp add: field_items_Cons)
  qed
qed

text \<open>
  \<open>_fetch_paginated_fields\<close> has no handler around its field generators: an exception of
  the one that is running leaves the parent's generator, and the fields after it are
  never reached.
\<close>

lemma fetch_chain_raise:
  "paginate_field send rf query vars st cur w = (Raise e, cur', w', evs) \<Longrightarrow>
     fetch_chain send rf query vars st cur later w = (Raise e, FetchDone, w', evs)"
  by (cases later) simp_all

lemma two_field_run:
  "process_nested_fields 3 (fetch_paginated_fields scripted ''projects'' ''Q'' [])
      [two_field_project] (initial_active [two_field_project])
      [Inl (TransportError ''down''), members_page_two]
     = ([([0], [[(''id'', JStr ''1''),
                 (''labels'', collection [label ''a'', label ''a''] (page_info True (JStr ''c1''))),
                 (''members'', collection [label ''m''] (page_info True (JStr ''m1'')))]])],
        Completed,
        [[(''id'', JStr ''1''),
          (''labels'', collection [label ''a'', label ''a''] (page_info True (JStr ''c1''))),
          (''members'', collection [label ''m''] (page_info True (JStr ''m1'')))]],
        [members_page_two],
        [Log (DebugFetchingField ''labels'' (JStr ''1'')),
         Call (graphql_request ''Q'' [(''labelsCursor'', JStr ''c1'')]) (Inl (TransportError ''down'')),
         Log (ErrorExecuteFailed (TransportError ''down''))])"
  by (simp add: numeral_3_eq_3 initial_active_def merge_wave_def extend_nodes_def
      set_field_nodes_def copy_field_def field_generators_def field_loop_def execute_query_def
      dict_union_def two_field_project_def collection_def page_info_def label_def)

text \<open>
  Claim C1, as stated, fails. The batch is one project with two nested collections,
  \<open>labels\<close> and \<open>members\<close>, each with a further page and a cursor. The re-query for the
  second page of the labels raises a transport error; the answer for the members is
  ready. The one advance that raised is that of the labels, yet the members, whose
  stream never failed and has more to fetch, get nothing more: no request is sent for
  them (the answer is still unread), their list keeps its one item, no snapshot follows
  the one of the first wave, and the loop ends.
\<close>

theorem other_field_counterexample:
  "process_nested_fields 3 (fetch_paginated_fields scripted ''projects'' ''Q'' [])
      [two_field_project] (initial_active [two_field_project])
      [Inl (TransportError ''down''), members_page_two]
     = ([([0], [[(''id'', JStr ''1''),
                 (''labels'', collection [label ''a'', label ''a''] (page_info True (JStr ''c1''))),
                 (''members'', collection [label ''m''] (page_info True (JStr ''m1'')))]])],
        Completed,
        [[(''id'', JStr ''1''),
          (''labels'', collection [label ''a'', label ''a''] (page_info True (JStr ''c1''))),
          (''members'', collection [label ''m''] (page_info True (JStr ''m1'')))]],
        [members_page_two],
        [Log (DebugFetchingField ''labels'' (JStr ''1'')),
         Call (graphql_request ''Q'' [(''labelsCursor'', JStr ''c1'')]) (Inl (TransportError ''down'')),
         Log (ErrorExecuteFailed (TransportError ''down''))])
   \<and> field_generators 0 two_field_project
     = [FieldGen 0 ''labels'' FieldStart, FieldGen 0 ''members'' FieldStart]"
  by (simp add: two_field_run) (simp add: field_generators_def two_field_project_def collection_def)

text \<open>
  Claim C1, amended. The pairs of the merger are a parent and its one stream, which goes
  through the parent's nested fields one after the other; an exception in the
  pagination of one field ends that stream, the fields not yet reached included, and
  the stream is then exhausted. Take a wave of the loop in which the advance of one
  pair raised an exception or reported exhaustion, and in which the merges of the other
  pairs, and the copy if one is made, raise nothing of their own. Then the loop is not
  left: it goes on with the pairs that yielded, in order, the failed pair not among
  them; if anything was merged, the wave yields a snapshot with one record for each of
  those pairs, the copy of its parent, showing every item list of the parent as merged
  so far; and the parent of the failed pair, when no other pair of the wave shares it,
  is never written to from then on (it keeps what was merged into it) and is in no
  snapshot from this wave on.
\<close>

theorem failed_stream_drops_its_parent:
  assumes g: "gather adv store active w = (zipped, w1, evs1)"
      and k: "k < length zipped"
      and failed: "snd (zipped ! k) = Raise e \<or> snd (zipped ! k) = Stop"
      and others: "merge_results store (take k zipped @ drop (Suc k) zipped)
                     = (store1, Inr (next_active, updated))"
      and copy: "updated \<longrightarrow> snapshot store1 (map fst next_active) = Inr snap"
      and rest: "process_nested_fields n adv store1 next_active w1 = (snaps, out, store2, w2, evs2)"
  shows "process_nested_fields (Suc n) adv store active w
           = ((if updated then [(map fst next_active, snap)] else []) @ snaps,
              out, store2, w2, evs1 @ evs2)
       \<and> next_active
           = map fst (filter (\<lambda>z. is_yield (snd z)) (take k zipped @ drop (Suc k) zipped))
       \<and> (updated \<longrightarrow>
            length snap = length next_active
          \<and> (\<forall>a < length next_active.
                 copy_project (store1 ! fst (next_active ! a)) = Inr (snap ! a)
               \<and> (\<forall>key xs. field_items (store1 ! fst (next_active ! a)) key = Some xs \<longrightarrow>
                      field_items (snap ! a) key = Some xs)))
       \<and> ((\<forall>z \<in> set (take k zipped @ drop (Suc k) zipped). fst (fst z) \<noteq> fst (fst (zipped ! k))) \<longrightarrow>
            store2 ! fst (fst (zipped ! k)) = store ! fst (fst (zipped ! k))
          \<and> (\<forall>s \<in> set ((if updated then [(map fst next_active, snap)] else []) @ snaps).
               fst (fst (zipped ! k)) \<notin> set (fst s)))
       \<and> (paginate_field send rf query vars st cur w0 = (Raise e0, cur', w0', evs0) \<longrightarrow>
            fetch_chain send rf query vars st cur later w0 = (Raise e0, FetchDone, w0', evs0)
          \<and> fetch_paginated_fields send rf query vars st FetchDone w0' = (Stop, FetchDone, w0', []))"
proof -
  let ?others = "take k zipped @ drop (Suc k) zipped"
  let ?p = "fst (fst (zipped ! k))"
  obtain pit r where zk0: "zipped ! k = (pit, r)" by (cases "zipped ! k") auto
  obtain p it where "pit = (p, it)" by (cases pit) auto
  with zk0 have zk: "zipped ! k = ((p, it), r)" by simp
  from failed zk have ny: "\<not> is_yield r" by auto
  have split: "zipped = take k zipped @ ((p, it), r) # drop (Suc k) zipped"
    using id_take_nth_drop[OF k, unfolded zk] .
  have "merge_results store (take k zipped @ ((p, it), r) # drop (Suc k) zipped)
          = merge_results store ?others"
    by (rule merge_results_skip[OF ny])
  with others have "merge_results store (take k zipped @ ((p, it), r) # drop (Suc k) zipped)
          = (store1, Inr (next_active, updated))"
    by simp
  with split have m: "merge_results store zipped = (store1, Inr (next_active, updated))"
    by metis
  from m copy have mw: "merge_wave store zipped
      = (store1, Inr (next_active, if updated then Some snap else None))"
    by (simp add: merge_wave_def)
  from gather_length[OF g] k obtain a as where act: "active = a # as"
    by (cases active) auto
  from act g mw rest
  have run: "process_nested_fields (Suc n) adv store active w
           = ((if updated then [(map fst next_active, snap)] else []) @ snaps,
              out, store2, w2, evs1 @ evs2)"
    by simp
  note na = merge_results_next_active[OF others]
  have content: "length snap = length next_active
          \<and> (\<forall>a < length next_active.
                 copy_project (store1 ! fst (next_active ! a)) = Inr (snap ! a)
               \<and> (\<forall>key xs. field_items (store1 ! fst (next_active ! a)) key = Some xs \<longrightarrow>
                      field_items (snap ! a) key = Some xs))"
    if u: updated
  proof -
    from copy u have sn: "snapshot store1 (map fst next_active) = Inr snap" by simp
    note nth = snapshot_nth[OF sn]
    from nth have len: "length snap = length next_active" by simp
    have "copy_project (store1 ! fst (next_active ! a)) = Inr (snap ! a)
               \<and> (\<forall>key xs. field_items (store1 ! fst (next_active ! a)) key = Some xs \<longrightarrow>
                      field_items (snap ! a) key = Some xs)"
      if a: "a < length next_active" for a
    proof -
      from nth a have c: "copy_project (store1 ! fst (next_active ! a)) = Inr (snap ! a)"
        by simp
      with copy_project_items[OF c] show ?thesis by blast
    qed
    with len show ?thesis by blast
  qed
  define q where "q = fst (fst (zipped ! k))"
  have dropped: "store2 ! q = store ! q
          \<and> (\<forall>s \<in> set ((if updated then [(map fst next_active, snap)] else []) @ snaps).
               q \<notin> set (fst s))"
    if alone: "\<forall>z \<in> set ?others. fst (fst z) \<noteq> q"
  proof -
    have silent: "\<forall>it y. ((q, it), Yield y) \<notin> set ?others"
    proof (intro allI notI)
      fix it y assume "((q, it), Yield y) \<in> set ?others"
      with alone have "fst (fst ((q, it), Yield y)) \<noteq> q" by blast
      then show False by simp
    qed
    with merge_results_frame[OF others] have keep: "store1 ! q = store ! q" by simp
    have notin: "q \<notin> fst ` set next_active"
    proof
      assume "q \<in> fst ` set next_active"
      then obtain it where "(q, it) \<in> set next_active" by auto
      with na have "(q, it) \<in> fst ` {z \<in> set ?others. is_yield (snd z)}"
        by (simp only: set_map set_filter)
      then obtain z where z: "z \<in> set ?others" and fz: "fst z = (q, it)"
        by (elim imageE) (simp only: mem_Collect_eq, metis)
      from alone z have "fst (fst z) \<noteq> q" by blast
      with fz show False by simp
    qed
    then have "\<forall>it w0. (q, it) \<in> set next_active \<longrightarrow> \<not> is_yield (fst (adv store1 it w0))"
      by force
    from process_leaves_silent_project[OF rest this]
    have "store2 ! q = store1 ! q" and "\<forall>s \<in> set snaps. q \<notin> set (fst s)" by auto
    with keep notin show ?thesis by auto
  qed
  have chain: "fetch_chain send rf query vars st cur later w0 = (Raise e0, FetchDone, w0', evs0)
          \<and> fetch_paginated_fields send rf query vars st FetchDone w0' = (Stop, FetchDone, w0', [])"
    if "paginate_field send rf query vars st cur w0 = (Raise e0, cur', w0', evs0)"
    using fetch_chain_raise[OF that] by simp
  from run na content dropped[unfolded q_def] chain show ?thesis by blast
qed

lemma canned_gather:
  "gather canned [labelled_project, labelled_project]
      [(0, [Raise (TransportError ''down'')]),
       (1, [Yield (''labels'', Fresh (JList [label ''c'']))])] ()
     = ([((0, []), Raise (TransportError ''down'')),
         ((1, []), Yield (''labels'', Fresh (JList [label ''c''])))], (), [])"
  by simp

lemma canned_others:
  "merge_results [labelled_project, labelled_project]
      (take 0 [((0::nat, []::(string \<times> nodes_ref) step list), Raise (TransportError ''down'')),
               ((1, []), Yield (''labels'', Fresh (JList [label ''c''])))]
       @ drop (Suc 0) [((0, []), Raise (TransportError ''down'')),
               ((1, []), Yield (''labels'', Fresh (JList [label ''c''])))])
     = ([labelled_project,
         [(''id'', JStr ''1''),
          (''labels'', collection [label ''a'', label ''b'', label ''c''] (page_info True (JStr ''c1'')))]],
        Inr ([(1, [])], True))"
  by (simp add: extend_nodes_def set_field_nodes_def labelled_project_def collection_def)

lemma canned_copy:
  "snapshot [labelled_project,
         [(''id'', JStr ''1''),
          (''labels'', collection [label ''a'', label ''b'', label ''c''] (page_info True (JStr ''c1'')))]]
      (map fst [(1::nat, []::(string \<times> nodes_ref) step list)])
     = Inr [[(''id'', JStr ''1''),
             (''labels'', collection [label ''a'', label ''b'', label ''c''] (page_info True (JStr ''c1'')))]]"
  by (simp add: copy_field_def collection_def)

lemma canned_rest:
  "process_nested_fields 1 canned
      [labelled_project,
       [(''id'', JStr ''1''),
        (''labels'', collection [label ''a'', label ''b'', label ''c''] (page_info True (JStr ''c1'')))]]
      [(1, [])] ()
     = ([], Completed,
        [labelled_project,
         [(''id'', JStr ''1''),
          (''labels'', collection [label ''a'', label ''b'', label ''c''] (page_info True (JStr ''c1'')))]],
        (), [])"
  by (simp add: merge_wave_def)

lemma labels_requery_fails:
  "paginate_field scripted ''projects'' ''Q'' [] [two_field_project]
      (FieldGen 0 ''labels'' (FieldFirst (JStr ''1'') (page_info True (JStr ''c1''))))
      [Inl (TransportError ''down''), members_page_two]
     = (Raise (TransportError ''down''), FieldGen 0 ''labels'' FieldDone, [members_page_two],
        [Log (DebugFetchingField ''labels'' (JStr ''1'')),
         Call (graphql_request ''Q'' [(''labelsCursor'', JStr ''c1'')]) (Inl (TransportError ''down'')),
         Log (ErrorExecuteFailed (TransportError ''down''))])"
  by (simp add: field_loop_def execute_query_def dict_union_def page_info_def)

theorem failed_stream_drops_its_parent_witness:
  "process_nested_fields (Suc 1) canned [labelled_project, labelled_project]
      [(0, [Raise (TransportError ''down'')]),
       (1, [Yield (''labels'', Fresh (JList [label ''c'']))])] ()
     = ([([1], [[(''id'', JStr ''1''),
                 (''labels'', collection [label ''a'', label ''b'', label ''c'']
                    (page_info True (JStr ''c1'')))]])],
        Completed,
        [labelled_project,
         [(''id'', JStr ''1''),
          (''labels'', collection [label ''a'', label ''b'', label ''c''] (page_info True (JStr ''c1'')))]],
        (), [])
   \<and> field_items
        ([[(''id'', JStr ''1''),
           (''labels'', collection [label ''a'', label ''b'', label ''c''] (page_info True (JStr ''c1'')))]]
         ! 0) ''labels''
     = Some [label ''a'', label ''b'', label ''c'']
   \<and> [labelled_project,
       [(''id'', JStr ''1''),
        (''labels'', collection [label ''a'', label ''b'', label ''c''] (page_info True (JStr ''c1'')))]]
      ! 0 = [labelled_project, labelled_project] ! 0
   \<and> fetch_chain scripted ''projects'' ''Q'' [] [two_field_project]
        (FieldGen 0 ''labels'' (FieldFirst (JStr ''1'') (page_info True (JStr ''c1''))))
        [FieldGen 0 ''members'' FieldStart] [Inl (TransportError ''down''), members_page_two]
     = (Raise (TransportError ''down''), FetchDone, [members_page_two],
        [Log (DebugFetchingField ''labels'' (JStr ''1'')),
         Call (graphql_request ''Q'' [(''labelsCursor'', JStr ''c1'')]) (Inl (TransportError ''down'')),
         Log (ErrorExecuteFailed (TransportError ''down''))])"
proof -
  let ?zipped = "[((0::nat, []::(string \<times> nodes_ref) step list), Raise (TransportError ''down'')),
                  ((1, []), Yield (''labels'', Fresh (JList [label ''c''])))]"
  let ?grown = "[(''id'', JStr ''1''),
        (''labels'', collection [label ''a'', label ''b'', label ''c''] (page_info True (JStr ''c1'')))]"
  have k: "0 < length ?zipped" by simp
  have failed: "snd (?zipped ! 0) = Raise (TransportError ''down'') \<or> snd (?zipped ! 0) = Stop"
    by simp
  have copy: "True \<longrightarrow> snapshot [labelled_project, ?grown] (map fst [(1::nat, []::(string \<times> nodes_ref) step list)])
      = Inr [?grown]"
    using canned_copy by simp
  note t = failed_stream_drops_its_parent [OF canned_gather k failed canned_others copy canned_rest,
      of scripted "''projects''" "''Q''" "[]" "[two_field_project]"
      "FieldGen 0 ''labels'' (FieldFirst (JStr ''1'') (page_info True (JStr ''c1'')))"
      "[Inl (TransportError ''down''), members_page_two]" "TransportError ''down''"
      "FieldGen 0 ''labels'' FieldDone" "[members_page_two]"
      "[Log (DebugFetchingField ''labels'' (JStr ''1'')),
        Call (graphql_request ''Q'' [(''labelsCursor'', JStr ''c1'')]) (Inl (TransportError ''down'')),
        Log (ErrorExecuteFailed (TransportError ''down''))]"
      "[FieldGen 0 ''members'' FieldStart]"]
  from t have run: "process_nested_fields (Suc 1) canned [labelled_project, labelled_project]
      [(0, [Raise (TransportError ''down'')]),
       (1, [Yield (''labels'', Fresh (JList [label ''c'']))])] ()
     = ([([1], [?grown])], Completed, [labelled_project, ?grown], (), [])"
    by simp
  have items: "field_items ([labelled_project, ?grown] ! fst ([(1::nat, []::(string \<times> nodes_ref) step list)] ! 0))
      ''labels'' = Some [label ''a'', label ''b'', label ''c'']"
    by (simp add: field_items_def node_items_def collection_def)
  from t items have shown: "field_items ([?grown] ! 0) ''labels'' = Some [label ''a'', label ''b'', label ''c'']"
    by blast
  have alone: "\<forall>z \<in> set (take 0 ?zipped @ drop (Suc 0) ?zipped). fst (fst z) \<noteq> fst (fst (?zipped ! 0))"
    by simp
  from t alone have kept: "[labelled_project, ?grown] ! fst (fst (?zipped ! 0))
      = [labelled_project, labelled_project] ! fst (fst (?zipped ! 0))"
    by blast
  from t labels_requery_fails
  have chain: "fetch_chain scripted ''projects'' ''Q'' [] [two_field_project]
        (FieldGen 0 ''labels'' (FieldFirst (JStr ''1'') (page_info True (JStr ''c1''))))
        [FieldGen 0 ''members'' FieldStart] [Inl (TransportError ''down''), members_page_two]
     = (Raise (TransportError ''down''), FetchDone, [members_page_two],
        [Log (DebugFetchingField ''labels'' (JStr ''1'')),
         Call (graphql_request ''Q'' [(''labelsCursor'', JStr ''c1'')]) (Inl (TransportError ''down'')),
         Log (ErrorExecuteFailed (TransportError ''down''))])"
    by blast
  from run shown kept chain show ?thesis by simp
qed

end
